theory Spec2Isabelle
  imports Complex_Main
begin

section \<open>Arrays of reals\<close>

text \<open>
  The program computes on numpy arrays of floating point numbers. The embedding is over the
  real numbers: a 1-d array is a list of reals, a 2-d array (a discrete curve, a tangent
  vector field, a square root velocity representation) a list of rows, a 3-d array (a batch
  of curves) a list of 2-d arrays. Arrays are rectangular in numpy; the theorems say so in
  their hypotheses where a proof needs it.
\<close>

type_synonym vec = "real list"
type_synonym mat = "vec list"
type_synonym batch = "mat list"

text \<open>
  The exceptions the source raises. numpy does not raise on a floating point division by
  zero: it yields inf or nan and goes on. Real arithmetic has no such values, so the model
  stops at a division by zero (or at the square root of a negative number) with
  \<open>NumericalFault\<close>, and says nothing about what the source computes from there on.
\<close>

datatype error =
    AssertionError
  | ValueError
  | RuntimeError
  | ZeroDivisionError
  | LinAlgError
  | IndexError
  | NumericalFault

definition vec_add :: "vec \<Rightarrow> vec \<Rightarrow> vec" where
  "vec_add a b = map2 (+) a b"

definition vec_sub :: "vec \<Rightarrow> vec \<Rightarrow> vec" where
  "vec_sub a b = map2 (-) a b"

definition scal :: "real \<Rightarrow> vec \<Rightarrow> vec" where
  "scal c v = map ((*) c) v"

definition dot :: "vec \<Rightarrow> vec \<Rightarrow> real" where
  "dot a b = sum_list (map2 (*) a b)"

definition mat_add :: "mat \<Rightarrow> mat \<Rightarrow> mat" where
  "mat_add a b = map2 vec_add a b"

definition mat_sub :: "mat \<Rightarrow> mat \<Rightarrow> mat" where
  "mat_sub a b = map2 vec_sub a b"

definition mat_scal :: "real \<Rightarrow> mat \<Rightarrow> mat" where
  "mat_scal c a = map (scal c) a"

text \<open>An argument that the source takes either as one curve (2-d) or as a batch (3-d).\<close>

datatype curves = Single mat | Batch batch

text \<open>
  Modelled from the spec: the backend helper \<open>to_ndarray\<close> is not among the sources. With
  \<open>to_ndim = 3\<close> it gives a single curve a leading batch axis of length one and leaves a
  batch as it is (section 9, batch against single-curve shapes).
\<close>

fun to_ndarray3 :: "curves \<Rightarrow> batch" where
  "to_ndarray3 (Single c) = [c]"
| "to_ndarray3 (Batch cs) = cs"

text \<open>The second entry of the shape of a 3-d array; a list keeps no shape when it is empty.\<close>

definition shape1 :: "batch \<Rightarrow> nat" where
  "shape1 cs = (case cs of [] \<Rightarrow> 0 | c # _ \<Rightarrow> length c)"

text \<open>\<open>reshape\<close> of a flat list of rows into \<open>k\<close> blocks of \<open>n\<close> rows.\<close>

definition reshape3 :: "nat \<Rightarrow> nat \<Rightarrow> 'a list \<Rightarrow> 'a list list" where
  "reshape3 k n xs = map (\<lambda>i. take n (drop (i * n) xs)) [0..<k]"

text \<open>Indexing by a boolean mask, \<open>srv[mask]\<close>.\<close>

definition bool_index :: "'a list \<Rightarrow> bool list \<Rightarrow> 'a list" where
  "bool_index xs msk = map fst (filter snd (zip xs msk))"

text \<open>\<open>cumsum\<close> along the axis of the rows.\<close>

primrec cumsum_from :: "vec \<Rightarrow> mat \<Rightarrow> mat" where
  "cumsum_from acc [] = []"
| "cumsum_from acc (r # rs) = vec_add acc r # cumsum_from (vec_add acc r) rs"

definition cumsum :: "mat \<Rightarrow> mat" where
  "cumsum rows = (case rows of [] \<Rightarrow> [] | r # rs \<Rightarrow> r # cumsum_from r rs)"

section \<open>The ambient metric\<close>

text \<open>
  Modelled from the spec: the metric classes are not among the sources. Section 6 names the
  five operations an ambient metric supplies (\<open>exp\<close>, \<open>log\<close>, \<open>dist\<close>, \<open>inner_product\<close>,
  \<open>norm\<close>, the last with an optional base point). The source tells a Euclidean metric from
  any other by \<open>isinstance\<close>; here that is the constructor. In flat space the operations
  are the usual ones; any other metric brings its own.
\<close>

datatype ambient_metric =
    EuclideanMetric nat
  | OtherMetric
      (other_exp: "vec \<Rightarrow> vec \<Rightarrow> vec")
      (other_log: "vec \<Rightarrow> vec \<Rightarrow> vec")
      (other_inner_product: "vec \<Rightarrow> vec \<Rightarrow> vec option \<Rightarrow> real")
      (other_norm: "vec \<Rightarrow> vec option \<Rightarrow> real")
      (other_dist: "vec \<Rightarrow> vec \<Rightarrow> real")

fun is_euclidean :: "ambient_metric \<Rightarrow> bool" where
  "is_euclidean (EuclideanMetric d) = True"
| "is_euclidean (OtherMetric e l i n d) = False"

fun is_planar :: "ambient_metric \<Rightarrow> bool" where
  "is_planar (EuclideanMetric d) = (d = 2)"
| "is_planar (OtherMetric e l i n d) = False"

fun amb_exp :: "ambient_metric \<Rightarrow> vec \<Rightarrow> vec \<Rightarrow> vec" where
  "amb_exp (EuclideanMetric d) tangent_vec base_point = vec_add base_point tangent_vec"
| "amb_exp (OtherMetric e l i n d) tangent_vec base_point = e tangent_vec base_point"

fun amb_log :: "ambient_metric \<Rightarrow> vec \<Rightarrow> vec \<Rightarrow> vec" where
  "amb_log (EuclideanMetric d) point base_point = vec_sub point base_point"
| "amb_log (OtherMetric e l i n d) point base_point = l point base_point"

fun amb_inner_product :: "ambient_metric \<Rightarrow> vec \<Rightarrow> vec \<Rightarrow> vec option \<Rightarrow> real" where
  "amb_inner_product (EuclideanMetric d) a b base_point = dot a b"
| "amb_inner_product (OtherMetric e l i n d) a b base_point = i a b base_point"

fun amb_norm :: "ambient_metric \<Rightarrow> vec \<Rightarrow> vec option \<Rightarrow> real" where
  "amb_norm (EuclideanMetric d) v base_point = sqrt (dot v v)"
| "amb_norm (OtherMetric e l i n d) v base_point = n v base_point"

fun amb_dist :: "ambient_metric \<Rightarrow> vec \<Rightarrow> vec \<Rightarrow> real" where
  "amb_dist (EuclideanMetric d') a b = sqrt (dot (vec_sub b a) (vec_sub b a))"
| "amb_dist (OtherMetric e l i n d) a b = d a b"

text \<open>
  A metric that is not Euclidean, for the examples: the Minkowski metric of the test data
  of the repository, of which the first coordinate is the time.
\<close>

definition minkowski_inner :: "vec \<Rightarrow> vec \<Rightarrow> real" where
  "minkowski_inner a b = (case (a, b) of (x # xs, y # ys) \<Rightarrow> - x * y + dot xs ys | _ \<Rightarrow> 0)"

definition minkowski_metric :: ambient_metric where
  "minkowski_metric =
     OtherMetric (\<lambda>tangent_vec base_point. vec_add base_point tangent_vec)
       (\<lambda>point base_point. vec_sub point base_point)
       (\<lambda>a b base_point. minkowski_inner a b)
       (\<lambda>v base_point. sqrt (minkowski_inner v v))
       (\<lambda>a b. sqrt (minkowski_inner (vec_sub b a) (vec_sub b a)))"

section \<open>The square root velocity transform\<close>

text \<open>
  \<open>SRVMetric.square_root_velocity\<close>. The batch is flattened to one list of points, the
  velocity of every pair of neighbours is taken (also of the last point of a curve and the
  first point of the next), and the mask drops the pairs that straddle two curves. A
  division by the square root of a norm that is not positive is a fault only where the mask
  keeps the row.
\<close>

definition square_root_velocity :: "ambient_metric \<Rightarrow> curves \<Rightarrow> error + batch" where
  "square_root_velocity m x =
    (let curve = to_ndarray3 x;
         n_curves = length curve;
         n_sampling_points = shape1 curve;
         curve = concat curve;
         coef = real (n_sampling_points - 1);
         velocity = map (scal coef) (map2 (amb_log m) (tl curve) (butlast curve));
         velocity_norm = map2 (\<lambda>v p. amb_norm m v (Some p)) velocity (butlast curve);
         srv = map2 (\<lambda>v nrm. if nrm \<le> 0 then None else Some (scal (1 / sqrt nrm) v))
                 velocity velocity_norm;
         index = [0..<n_curves * n_sampling_points - 1];
         msk = map (\<lambda>i. \<not> ((i + 1) mod n_sampling_points = 0)) index;
         srv = bool_index srv msk
     in if None \<in> set srv then Inl NumericalFault
        else Inr (reshape3 n_curves (n_sampling_points - 1) (map the srv)))"

text \<open>The starting point argument of the inverse, by its number of dimensions.\<close>

datatype points = P1 vec | P2 mat | P3 batch

text \<open>
  Modelled from the spec: \<open>to_ndarray (starting_point, to_ndim = srv.ndim, axis = 1)\<close> of
  the backend, called when the two numbers of dimensions differ. It inserts an axis at
  position 1 when the array has exactly one dimension less than asked, and raises when the
  array still has too few dimensions.
\<close>

fun adapt_starting_point :: "curves \<Rightarrow> points \<Rightarrow> error + curves" where
  "adapt_starting_point (Batch srv) (P3 s) = Inr (Batch s)"
| "adapt_starting_point (Batch srv) (P2 s) = Inr (Batch (map (\<lambda>p. [p]) s))"
| "adapt_starting_point (Batch srv) (P1 s) = Inl ValueError"
| "adapt_starting_point (Single srv) (P3 s) = Inr (Batch s)"
| "adapt_starting_point (Single srv) (P2 s) = Inr (Single s)"
| "adapt_starting_point (Single srv) (P1 s) = Inr (Single (map (\<lambda>x. [x]) s))"

text \<open>
  \<open>concatenate\<close> along the axis of the rows. numpy raises when the two arrays differ in
  their number of dimensions, in the length of the batch or in the length of the rows.
\<close>

definition row_width_ok :: "mat \<Rightarrow> mat \<Rightarrow> bool" where
  "row_width_ok a b = (\<forall>r \<in> set a. \<forall>r' \<in> set b. length r = length r')"

fun concatenate :: "curves \<Rightarrow> curves \<Rightarrow> error + curves" where
  "concatenate (Single a) (Single b) =
     (if row_width_ok a b then Inr (Single (a @ b)) else Inl ValueError)"
| "concatenate (Batch as) (Batch bs) =
     (if length as = length bs \<and> list_all2 row_width_ok as bs
      then Inr (Batch (map2 (@) as bs)) else Inl ValueError)"
| "concatenate (Single a) (Batch bs) = Inl ValueError"
| "concatenate (Batch as) (Single b) = Inl ValueError"

fun cumsum_rows :: "curves \<Rightarrow> curves" where
  "cumsum_rows (Single a) = Single (cumsum a)"
| "cumsum_rows (Batch as) = Batch (map cumsum as)"

text \<open>
  \<open>SRVMetric.square_root_velocity_inverse\<close>. The quotient \<open>1 / n_sampling_points_minus_one\<close>
  is a division of Python integers and raises when the representation has no row.
\<close>

definition square_root_velocity_inverse ::
    "ambient_metric \<Rightarrow> curves \<Rightarrow> points \<Rightarrow> error + curves" where
  "square_root_velocity_inverse m srv starting_point =
    (if \<not> is_euclidean m then Inl AssertionError
     else case adapt_starting_point srv starting_point of
       Inl e \<Rightarrow> Inl e
     | Inr starting_point \<Rightarrow>
        (let srv3 = to_ndarray3 srv;
             n_curves = length srv3;
             n_sampling_points_minus_one = shape1 srv3;
             flat = concat srv3
         in if n_sampling_points_minus_one = 0 then Inl ZeroDivisionError
            else
             (let srv_norm = map (\<lambda>v. amb_norm m v None) flat;
                  delta_points =
                    map2 (\<lambda>c v. scal c v)
                      (map (\<lambda>nrm. 1 / real n_sampling_points_minus_one * nrm) srv_norm) flat;
                  delta_points =
                    (case srv of
                       Single s \<Rightarrow> Single delta_points
                     | Batch s \<Rightarrow> Batch (reshape3 n_curves n_sampling_points_minus_one delta_points))
              in case concatenate starting_point delta_points of
                   Inl e \<Rightarrow> Inl e
                 | Inr curve \<Rightarrow> Inr (cumsum_rows curve))))"


text \<open>
  The pairs of neighbours of a list, the optional row of the representation that one
  segment gives, and the speeds of the segments of a curve: the vocabulary in which the
  theorems on the transform are stated.
\<close>

definition adjacent :: "('a \<Rightarrow> 'a \<Rightarrow> 'b) \<Rightarrow> 'a list \<Rightarrow> 'b list" where
  "adjacent f xs = map2 f (butlast xs) (tl xs)"

definition srv_segment :: "ambient_metric \<Rightarrow> real \<Rightarrow> vec \<Rightarrow> vec \<Rightarrow> vec option" where
  "srv_segment m coef p q =
     (let v = scal coef (amb_log m q p); nrm = amb_norm m v (Some p)
      in if nrm \<le> 0 then None else Some (scal (1 / sqrt nrm) v))"

definition segment_speeds :: "ambient_metric \<Rightarrow> mat \<Rightarrow> real list" where
  "segment_speeds m c = map2 (\<lambda>p q. amb_norm m (amb_log m q p) (Some p)) (butlast c) (tl c)"

section \<open>The metric on curves\<close>

text \<open>
  Modelled from the spec: the product metric \<open>L2Metric\<close> is not among the sources. By
  section 6 its operations are those of the ambient metric, applied at every sampling point
  and summed; norm and distance follow from the inner product.
\<close>

definition l2_inner_product :: "ambient_metric \<Rightarrow> mat \<Rightarrow> mat \<Rightarrow> real" where
  "l2_inner_product m a b = sum_list (map2 (\<lambda>u v. amb_inner_product m u v None) a b)"

definition l2_exp :: "ambient_metric \<Rightarrow> mat \<Rightarrow> mat \<Rightarrow> mat" where
  "l2_exp m tangent_vec base_point = map2 (amb_exp m) tangent_vec base_point"

definition l2_log :: "ambient_metric \<Rightarrow> mat \<Rightarrow> mat \<Rightarrow> mat" where
  "l2_log m point base_point = map2 (amb_log m) point base_point"

definition l2_dist :: "ambient_metric \<Rightarrow> mat \<Rightarrow> mat \<Rightarrow> real" where
  "l2_dist m a b = sqrt (l2_inner_product m (l2_log m b a) (l2_log m b a))"

text \<open>\<open>SRVMetric.pointwise_inner_product\<close> and \<open>SRVMetric.pointwise_norm\<close>, on one curve.\<close>

definition pointwise_inner_product :: "ambient_metric \<Rightarrow> mat \<Rightarrow> mat \<Rightarrow> mat \<Rightarrow> vec" where
  "pointwise_inner_product m tangent_vec_a tangent_vec_b base_curve =
     map (\<lambda>(a, b, p). amb_inner_product m a b (Some p))
       (zip tangent_vec_a (zip tangent_vec_b base_curve))"

definition pointwise_norm :: "ambient_metric \<Rightarrow> mat \<Rightarrow> mat \<Rightarrow> vec" where
  "pointwise_norm m tangent_vec base_curve =
     map sqrt (pointwise_inner_product m tangent_vec tangent_vec base_curve)"

text \<open>
  \<open>SRVMetric.d_square_root_velocity\<close>, on one curve. The reciprocals of the norms of the
  velocity are a fault where the velocity vanishes.
\<close>

definition d_square_root_velocity :: "ambient_metric \<Rightarrow> mat \<Rightarrow> mat \<Rightarrow> error + mat" where
  "d_square_root_velocity m tangent_vec curve =
    (if \<not> is_euclidean m then Inl AssertionError
     else
      (let n_sampling_points = length curve;
           d_vec = mat_scal (real n_sampling_points) (mat_sub (tl tangent_vec) (butlast tangent_vec));
           velocity_vec = mat_scal (real n_sampling_points) (mat_sub (tl curve) (butlast curve));
           velocity_norm = map (\<lambda>v. amb_norm m v None) velocity_vec
       in if \<exists>nrm \<in> set velocity_norm. nrm \<le> 0 then Inl NumericalFault
          else
           (let unit_velocity_vec = map2 (\<lambda>v nrm. scal (1 / nrm) v) velocity_vec velocity_norm;
                d_vec_tangential =
                  map2 (\<lambda>u c. scal c u) unit_velocity_vec
                    (map2 (\<lambda>a b. amb_inner_product m a b None) d_vec unit_velocity_vec);
                d_srv_vec = mat_sub d_vec (mat_scal (1 / 2) d_vec_tangential);
                d_srv_vec = map2 (\<lambda>v nrm. scal (1 / sqrt nrm) v) d_srv_vec velocity_norm
            in Inr d_srv_vec)))"

text \<open>\<open>SRVMetric.inner_product\<close>: the pullback of the product metric, over the number of points.\<close>

definition inner_product :: "ambient_metric \<Rightarrow> mat \<Rightarrow> mat \<Rightarrow> mat \<Rightarrow> error + real" where
  "inner_product m tangent_vec_a tangent_vec_b curve =
    (if \<not> is_euclidean m then Inl AssertionError
     else
      (let n_sampling_points = length curve
       in case d_square_root_velocity m tangent_vec_a curve of
            Inl e \<Rightarrow> Inl e
          | Inr d_srv_vec_a \<Rightarrow>
             (case d_square_root_velocity m tangent_vec_b curve of
                Inl e \<Rightarrow> Inl e
              | Inr d_srv_vec_b \<Rightarrow>
                 if n_sampling_points = 0 then Inl NumericalFault
                 else Inr (l2_inner_product m d_srv_vec_a d_srv_vec_b / real n_sampling_points))))"

text \<open>
  \<open>SRVMetric.srv_inner_product\<close> and \<open>SRVMetric.srv_norm\<close>. The quotient by the number of
  rows is a division by zero for a representation without rows; the callers below stop
  there before they call.
\<close>

definition srv_inner_product :: "ambient_metric \<Rightarrow> mat \<Rightarrow> mat \<Rightarrow> real" where
  "srv_inner_product m srv_1 srv_2 =
     (let n_sampling_points = length srv_1
      in l2_inner_product m srv_1 srv_2 / real n_sampling_points)"

definition srv_norm :: "ambient_metric \<Rightarrow> mat \<Rightarrow> real" where
  "srv_norm m srv = sqrt (srv_inner_product m srv srv)"

text \<open>
  Arrays of different batch lengths are combined by broadcasting: a batch of one curve
  stands for as many copies as the other batch has curves; any other difference raises.
\<close>

definition broadcast_batch :: "batch \<Rightarrow> batch \<Rightarrow> error + (batch \<times> batch)" where
  "broadcast_batch a b =
     (if length a = length b then Inr (a, b)
      else if length a = 1 then Inr (replicate (length b) (hd a), b)
      else if length b = 1 then Inr (a, replicate (length a) (hd b))
      else Inl ValueError)"


text \<open>The first error of a list of results, or all the values.\<close>

fun sequence :: "(error + 'a) list \<Rightarrow> error + 'a list" where
  "sequence [] = Inr []"
| "sequence (x # xs) =
     (case x of
        Inl e \<Rightarrow> Inl e
      | Inr v \<Rightarrow> (case sequence xs of Inl e \<Rightarrow> Inl e | Inr vs \<Rightarrow> Inr (v # vs)))"

text \<open>
  The initial velocity of the representation in \<open>SRVMetric.exp\<close>, for one curve of the
  batch: the lines from \<open>tangent_vec_derivative\<close> to \<open>srv_initial_derivative\<close>.
\<close>

definition srv_initial_derivative_of :: "ambient_metric \<Rightarrow> nat \<Rightarrow> mat \<Rightarrow> mat \<Rightarrow> error + mat" where
  "srv_initial_derivative_of m n_sampling_points tangent_vec base_point =
    (let tangent_vec_derivative =
           mat_scal (real (n_sampling_points - 1)) (mat_sub (tl tangent_vec) (butlast tangent_vec));
         base_curve_velocity =
           mat_scal (real (n_sampling_points - 1)) (mat_sub (tl base_point) (butlast base_point));
         sq_norm = pointwise_inner_product m base_curve_velocity base_curve_velocity
                     (butlast base_point)
     in if \<exists>s \<in> set sq_norm. s \<le> 0 then Inl NumericalFault
        else
         (let base_curve_velocity_norm =
                pointwise_norm m base_curve_velocity (butlast base_point);
              inner_prod = pointwise_inner_product m tangent_vec_derivative base_curve_velocity
                             (butlast base_point);
              coef_1 = map (\<lambda>nrm. 1 / sqrt nrm) base_curve_velocity_norm;
              coef_2 = map2 (\<lambda>nrm ip. - 1 / (2 * nrm powr (5 / 2)) * ip)
                         base_curve_velocity_norm inner_prod;
              term_1 = map2 scal coef_1 tangent_vec_derivative;
              term_2 = map2 scal coef_2 base_curve_velocity
          in Inr (mat_add term_1 term_2)))"

text \<open>\<open>SRVMetric.exp\<close>.\<close>

definition exp_curve :: "ambient_metric \<Rightarrow> curves \<Rightarrow> curves \<Rightarrow> error + curves" where
  "exp_curve m tangent_vec base_point =
    (if \<not> is_euclidean m then Inl AssertionError
     else
      (let base_point = to_ndarray3 base_point;
           tangent_vec = to_ndarray3 tangent_vec;
           n_sampling_points = shape1 base_point
       in case square_root_velocity m (Batch base_point) of
            Inl e \<Rightarrow> Inl e
          | Inr base_curve_srv \<Rightarrow>
             (case broadcast_batch tangent_vec base_point of
                Inl e \<Rightarrow> Inl e
              | Inr (tangent_vec, base_point) \<Rightarrow>
                 (case sequence (map2 (srv_initial_derivative_of m n_sampling_points)
                                  tangent_vec base_point) of
                    Inl e \<Rightarrow> Inl e
                  | Inr srv_initial_derivative \<Rightarrow>
                     (case broadcast_batch srv_initial_derivative base_curve_srv of
                        Inl e \<Rightarrow> Inl e
                      | Inr (srv_initial_derivative, base_curve_srv) \<Rightarrow>
                         (let end_curve_srv = map2 (l2_exp m) srv_initial_derivative base_curve_srv
                          in if [] \<in> set tangent_vec \<or> [] \<in> set base_point then Inl IndexError
                             else
                              (let end_curve_starting_point =
                                     map2 (\<lambda>t b. amb_exp m (hd t) (hd b)) tangent_vec base_point
                               in square_root_velocity_inverse m (Batch end_curve_srv)
                                    (P2 end_curve_starting_point))))))))"

text \<open>
  The derivative of the logarithm in \<open>SRVMetric.log\<close>, for one curve of the batch: the
  lines from \<open>base_curve_velocity\<close> to \<open>log_derivative\<close>.
\<close>

definition log_derivative_of :: "ambient_metric \<Rightarrow> nat \<Rightarrow> mat \<Rightarrow> mat \<Rightarrow> mat \<Rightarrow> error + mat" where
  "log_derivative_of m n_sampling_points curve_srv base_curve_srv base_point =
    (let base_curve_velocity =
           mat_scal (real (n_sampling_points - 1)) (mat_sub (tl base_point) (butlast base_point));
         sq_norm = pointwise_inner_product m base_curve_velocity base_curve_velocity
                     (butlast base_point)
     in if \<exists>s \<in> set sq_norm. s \<le> 0 then Inl NumericalFault
        else
         (let base_curve_velocity_norm =
                pointwise_norm m base_curve_velocity (butlast base_point);
              inner_prod = pointwise_inner_product m (mat_sub curve_srv base_curve_srv)
                             base_curve_velocity (butlast base_point);
              coef_1 = map sqrt base_curve_velocity_norm;
              coef_2 = map2 (\<lambda>nrm ip. 1 / nrm powr (3 / 2) * ip)
                         base_curve_velocity_norm inner_prod;
              term_1 = map2 scal coef_1 (mat_sub curve_srv base_curve_srv);
              term_2 = map2 scal coef_2 base_curve_velocity
          in Inr (mat_add term_1 term_2)))"

definition shape2 :: "batch \<Rightarrow> nat" where
  "shape2 cs = (case cs of (p # _) # _ \<Rightarrow> length p | _ \<Rightarrow> 0)"

text \<open>
  \<open>SRVMetric.log\<close>. The quotient \<open>1 / (n_sampling_points - 1)\<close> is a division of Python
  integers and raises for curves of one point.
\<close>

definition log_curve :: "ambient_metric \<Rightarrow> curves \<Rightarrow> curves \<Rightarrow> error + batch" where
  "log_curve m point base_point =
    (if \<not> is_euclidean m then Inl AssertionError
     else
      (let point = to_ndarray3 point;
           base_point = to_ndarray3 base_point;
           n_curves = length point;
           n_sampling_points = shape1 point;
           n_coords = shape2 point
       in case square_root_velocity m (Batch point) of
            Inl e \<Rightarrow> Inl e
          | Inr curve_srv \<Rightarrow>
        (case square_root_velocity m (Batch base_point) of
            Inl e \<Rightarrow> Inl e
          | Inr base_curve_srv \<Rightarrow>
        (case broadcast_batch curve_srv base_curve_srv of
            Inl e \<Rightarrow> Inl e
          | Inr (curve_srv, base_curve_srv') \<Rightarrow>
        (case broadcast_batch base_curve_srv' base_point of
            Inl e \<Rightarrow> Inl e
          | Inr (base_curve_srv, base_point') \<Rightarrow>
        (case sequence (map (\<lambda>(c, b, p). log_derivative_of m n_sampling_points c b p)
                          (zip curve_srv (zip base_curve_srv base_point'))) of
            Inl e \<Rightarrow> Inl e
          | Inr log_derivative \<Rightarrow>
             if [] \<in> set point \<or> [] \<in> set base_point then Inl IndexError
             else
              (case broadcast_batch point base_point of
                 Inl e \<Rightarrow> Inl e
               | Inr (point', base_point') \<Rightarrow>
                  (let log_starting_points =
                         map2 (\<lambda>p b. amb_log m (hd p) (hd b)) point' base_point'
                   in if length log_derivative \<noteq> n_curves then Inl ValueError
                      else
                       (let log_cumsum =
                              map (\<lambda>d. replicate n_coords 0 # cumsum d) log_derivative
                        in if n_sampling_points = 1 then Inl ZeroDivisionError
                           else Inr (map2 (\<lambda>s c. map (\<lambda>r. vec_add s
                                        (scal (1 / real (n_sampling_points - 1)) r)) c)
                                      log_starting_points log_cumsum))))))))))"

text \<open>
  Modelled from the spec: \<open>allclose\<close> of the backend, with the tolerances of the backend as
  parameters (section 9, tolerances are configuration). Every entry of the first array is
  within \<open>atol + rtol * |b|\<close> of the entry \<open>b\<close> of the second.
\<close>

definition same_shape :: "batch \<Rightarrow> batch \<Rightarrow> bool" where
  "same_shape a b = list_all2 (list_all2 (\<lambda>u v. length u = length v)) a b"

definition allclose :: "real \<Rightarrow> real \<Rightarrow> batch \<Rightarrow> batch \<Rightarrow> bool" where
  "allclose rtol atol a b =
     list_all2 (list_all2 (list_all2 (\<lambda>x y. \<bar>x - y\<bar> \<le> atol + rtol * \<bar>y\<bar>))) a b"

definition sum_batch :: "batch \<Rightarrow> mat" where
  "sum_batch b = (case b of [] \<Rightarrow> [] | c # cs \<Rightarrow> foldl mat_add c cs)"

text \<open>
  The closure \<open>path\<close> that \<open>SRVMetric.geodesic\<close> returns: one exponential for every time,
  of the tangent vector (summed over its batch axis, as the \<open>einsum\<close> does) scaled by the
  time.
\<close>

definition path :: "ambient_metric \<Rightarrow> batch \<Rightarrow> batch \<Rightarrow> real list \<Rightarrow> error + curves list" where
  "path m initial_curve initial_tangent_vec t =
     (let tangent_vecs = map (\<lambda>s. mat_scal s (sum_batch initial_tangent_vec)) t
      in sequence (map (\<lambda>tan_vec. exp_curve m (Single tan_vec) (Batch initial_curve))
                     tangent_vecs))"

text \<open>\<open>SRVMetric.geodesic\<close>.\<close>

definition geodesic ::
    "real \<Rightarrow> real \<Rightarrow> ambient_metric \<Rightarrow> curves \<Rightarrow> curves option \<Rightarrow> curves option \<Rightarrow>
       error + (real list \<Rightarrow> error + curves list)" where
  "geodesic rtol atol m initial_curve end_curve initial_tangent_vec =
    (if \<not> is_euclidean m then Inl AssertionError
     else
      (let initial_curve = to_ndarray3 initial_curve
       in if end_curve = None \<and> initial_tangent_vec = None then Inl ValueError
          else
           (case end_curve of
              Some end_curve \<Rightarrow>
               (case log_curve m (Batch (to_ndarray3 end_curve)) (Batch initial_curve) of
                  Inl e \<Rightarrow> Inl e
                | Inr shooting_tangent_vec \<Rightarrow>
                   (case initial_tangent_vec of
                      Some initial_tangent_vec \<Rightarrow>
                       (case broadcast_batch shooting_tangent_vec
                               (to_ndarray3 initial_tangent_vec) of
                          Inl e \<Rightarrow> Inl e
                        | Inr (a, b) \<Rightarrow>
                           if \<not> same_shape a b then Inl ValueError
                           else if \<not> allclose rtol atol a b then Inl RuntimeError
                           else Inr (path m initial_curve shooting_tangent_vec))
                    | None \<Rightarrow> Inr (path m initial_curve shooting_tangent_vec)))
            | None \<Rightarrow>
               Inr (path m initial_curve (to_ndarray3 (the initial_tangent_vec))))))"

text \<open>
  \<open>SRVMetric.dist\<close>, for two single curves. The representations carry a batch axis of
  length one, and so does the result.
\<close>

definition shape_of :: "mat \<Rightarrow> nat \<times> nat" where
  "shape_of a = (length a, case a of [] \<Rightarrow> 0 | r # _ \<Rightarrow> length r)"

definition dist_curve :: "ambient_metric \<Rightarrow> mat \<Rightarrow> mat \<Rightarrow> error + real list" where
  "dist_curve m point_a point_b =
    (if \<not> is_euclidean m then Inl AssertionError
     else if shape_of point_a \<noteq> shape_of point_b then Inl ValueError
     else
      (case square_root_velocity m (Single point_a) of
         Inl e \<Rightarrow> Inl e
       | Inr srv_a \<Rightarrow>
          (case square_root_velocity m (Single point_b) of
             Inl e \<Rightarrow> Inl e
           | Inr srv_b \<Rightarrow>
              (case (point_a, point_b) of
                 (pa # _, pb # _) \<Rightarrow>
                  (let dist_starting_points = amb_dist m pa pb;
                       dist_srvs = map2 (l2_dist m) srv_a srv_b
                   in Inr (map (\<lambda>d. sqrt (dist_starting_points\<^sup>2 + d\<^sup>2)) dist_srvs))
               | _ \<Rightarrow> Inl IndexError))))"


section \<open>Projection on the closed curves\<close>

text \<open>
  Modelled from the spec: \<open>SymmetricMatrices.from_vector\<close> is not among the sources. By
  section 6 it builds the symmetric matrix of a given size from the entries of its upper
  triangle, listed row by row.
\<close>

definition upper_index :: "nat \<Rightarrow> nat \<Rightarrow> nat \<Rightarrow> nat" where
  "upper_index n i j = i * n - (i * (i - 1)) div 2 + (j - i)"

definition from_vector :: "nat \<Rightarrow> vec \<Rightarrow> mat" where
  "from_vector n v =
     map (\<lambda>i. map (\<lambda>j. v ! upper_index n (min i j) (max i j)) [0..<n]) [0..<n]"

definition eye :: "nat \<Rightarrow> mat" where
  "eye n = map (\<lambda>i. map (\<lambda>j. if i = j then 1 else 0) [0..<n]) [0..<n]"

text \<open>
  \<open>linalg.inv\<close> of numpy, which raises on a singular matrix. The matrix inverted below has
  two rows and two columns; no other shape is modelled.
\<close>

fun linalg_inv :: "mat \<Rightarrow> error + mat" where
  "linalg_inv [[a, b], [c, d]] =
     (if a * d - b * c = 0 then Inl LinAlgError
      else Inr [[d / (a * d - b * c), - b / (a * d - b * c)],
                [- c / (a * d - b * c), a / (a * d - b * c)]])"
| "linalg_inv _ = Inl LinAlgError"

definition matvec :: "mat \<Rightarrow> vec \<Rightarrow> vec" where
  "matvec a x = map (\<lambda>r. dot r x) a"

definition column :: "mat \<Rightarrow> nat \<Rightarrow> vec" where
  "column a i = map (\<lambda>r. r ! i) a"

text \<open>The sum of the rows, \<open>sum (_, axis = 0)\<close>, of an array of \<open>n\<close> columns.\<close>

definition sum_axis0 :: "nat \<Rightarrow> mat \<Rightarrow> vec" where
  "sum_axis0 n a = foldr vec_add a (replicate n 0)"

text \<open>The local function \<open>g_criterion\<close> of \<open>project_srv\<close>.\<close>

definition g_criterion :: "nat \<Rightarrow> mat \<Rightarrow> vec \<Rightarrow> vec" where
  "g_criterion n srv srv_norms = sum_axis0 n (map2 (\<lambda>r nrm. scal nrm r) srv srv_norms)"

fun metric_dim :: "ambient_metric \<Rightarrow> nat" where
  "metric_dim (EuclideanMetric d) = d"
| "metric_dim (OtherMetric e l i n d) = 0"

text \<open>The variables of the loop of \<open>ClosedSRVMetric.project_srv\<close>.\<close>

record projection_state =
  proj :: mat
  proj_norms :: vec
  residual :: vec
  criteria :: real
  nb_iter :: int

text \<open>
  The three lines that follow every assignment to \<open>proj\<close>: the norms of its rows, the
  residual of the closure constraint and the norm of the residual.
\<close>

definition measure_proj :: "ambient_metric \<Rightarrow> mat \<Rightarrow> int \<Rightarrow> projection_state" where
  "measure_proj m p k =
     (let norms = map (\<lambda>v. amb_norm m v None) p;
          res = g_criterion (metric_dim m) p norms
      in \<lparr>proj = p, proj_norms = norms, residual = res,
          criteria = amb_norm m res None, nb_iter = k\<rparr>)"

text \<open>
  The body of the loop up to the new value of \<open>proj\<close>. It divides by the norms of the rows
  of \<open>proj\<close>, by the norms of the two gradients and by the norm of the updated \<open>proj\<close>; any
  of them being zero is a fault. The inverse of the Jacobian raises when it is singular.
\<close>

definition newton_step :: "ambient_metric \<Rightarrow> real \<Rightarrow> projection_state \<Rightarrow> error + mat" where
  "newton_step m initial_norm st =
    (let dim = metric_dim m;
         jacobian_vec =
           concat (map (\<lambda>i. map (\<lambda>j. 3 * amb_inner_product m (column (proj st) i)
                                       (column (proj st) j) None) [i..<dim]) [0..<dim]);
         g_jacobian = from_vector dim jacobian_vec;
         proj_squared_norm = (srv_norm m (proj st))\<^sup>2;
         g_jacobian = mat_add g_jacobian (mat_scal proj_squared_norm (eye dim))
     in case linalg_inv g_jacobian of
          Inl e \<Rightarrow> Inl e
        | Inr jacobian_inv \<Rightarrow>
           (let beta = matvec jacobian_inv (residual st);
                e_1 = [1, 0];
                e_2 = [0, 1]
            in if 0 \<in> set (proj_norms st) then Inl NumericalFault
               else
                (let grad_1 = map2 (\<lambda>r nrm. vec_add (scal nrm e_1) (scal (r ! 0 / nrm) r))
                                (proj st) (proj_norms st);
                     grad_2 = map2 (\<lambda>r nrm. vec_add (scal nrm e_2) (scal (r ! 1 / nrm) r))
                                (proj st) (proj_norms st)
                 in if srv_norm m grad_1 = 0 then Inl NumericalFault
                    else
                     (let basis_vector_1 = mat_scal (1 / srv_norm m grad_1) grad_1;
                          grad_2_component = srv_inner_product m grad_2 basis_vector_1;
                          grad_2_proj = mat_scal grad_2_component basis_vector_1;
                          basis_vector_2 = mat_sub grad_2 grad_2_proj
                      in if srv_norm m basis_vector_2 = 0 then Inl NumericalFault
                         else
                          (let basis_vector_2 =
                                 mat_scal (1 / srv_norm m basis_vector_2) basis_vector_2;
                               p = mat_sub (proj st)
                                     (mat_add (mat_scal (beta ! 0) basis_vector_1)
                                        (mat_scal (beta ! 1) basis_vector_2))
                           in if srv_norm m p = 0 then Inl NumericalFault
                              else Inr (map (map (\<lambda>x. x * initial_norm / srv_norm m p)) p))))))"

function project_srv_loop ::
    "ambient_metric \<Rightarrow> real \<Rightarrow> real \<Rightarrow> int \<Rightarrow> projection_state \<Rightarrow> error + projection_state" where
  "project_srv_loop m initial_norm atol max_iter st =
     (if criteria st \<ge> atol \<and> nb_iter st < max_iter then
        (case newton_step m initial_norm st of
           Inl e \<Rightarrow> Inl e
         | Inr p \<Rightarrow> project_srv_loop m initial_norm atol max_iter
                      (measure_proj m p (nb_iter st + 1)))
      else Inr st)"
  by pat_completeness auto
termination
  by (relation "measure (\<lambda>(m, initial_norm, atol, max_iter, st). nat (max_iter - nb_iter st))")
     (auto simp: measure_proj_def Let_def)

declare project_srv_loop.simps [simp del]

text \<open>
  \<open>ClosedSRVMetric.project_srv\<close>, with the variables of the loop at its end; the source
  returns \<open>proj\<close> alone. A representation without rows makes \<open>srv_norm\<close> divide by zero.
\<close>

definition project_srv_run ::
    "ambient_metric \<Rightarrow> mat \<Rightarrow> real \<Rightarrow> int \<Rightarrow> error + projection_state" where
  "project_srv_run m srv atol max_iter =
    (if \<not> is_planar m then Inl AssertionError
     else if srv = [] then Inl NumericalFault
     else
      (let initial_norm = srv_norm m srv
       in project_srv_loop m initial_norm atol max_iter (measure_proj m srv 0)))"

definition project_srv :: "ambient_metric \<Rightarrow> mat \<Rightarrow> real \<Rightarrow> int \<Rightarrow> error + mat" where
  "project_srv m srv atol max_iter =
    (case project_srv_run m srv atol max_iter of
       Inl e \<Rightarrow> Inl e
     | Inr st \<Rightarrow> Inr (proj st))"


text \<open>
  Modelled from the spec: the manifold classes are not among the sources. A manifold is the
  Euclidean space of a dimension, with its Euclidean metric, or another manifold with its
  own metric.
\<close>

datatype manifold = Euclidean nat | OtherManifold ambient_metric

fun manifold_metric :: "manifold \<Rightarrow> ambient_metric" where
  "manifold_metric (Euclidean d) = EuclideanMetric d"
| "manifold_metric (OtherManifold m) = m"

fun is_planar_manifold :: "manifold \<Rightarrow> bool" where
  "is_planar_manifold (Euclidean d) = (d = 2)"
| "is_planar_manifold (OtherManifold m) = False"

text \<open>\<open>ClosedDiscreteCurves.project\<close>.\<close>

definition project :: "manifold \<Rightarrow> curves \<Rightarrow> real \<Rightarrow> int \<Rightarrow> error + curves" where
  "project ambient_manifold curve atol max_iter =
    (if \<not> is_planar_manifold ambient_manifold then Inl AssertionError
     else
      (let srv_metric = manifold_metric ambient_manifold
       in case square_root_velocity srv_metric curve of
            Inl e \<Rightarrow> Inl e
          | Inr srvs \<Rightarrow>
             (case srvs of
                [] \<Rightarrow> Inl IndexError
              | srv # _ \<Rightarrow>
                 (case project_srv srv_metric srv atol max_iter of
                    Inl e \<Rightarrow> Inl e
                  | Inr srv_proj \<Rightarrow>
                     (case curve of
                        Single c \<Rightarrow>
                         (case c of
                            [] \<Rightarrow> Inl IndexError
                          | p # _ \<Rightarrow>
                             square_root_velocity_inverse srv_metric (Single srv_proj) (P2 [p]))
                      | Batch cs \<Rightarrow>
                         (case cs of
                            [] \<Rightarrow> Inl IndexError
                          | c # _ \<Rightarrow>
                             square_root_velocity_inverse srv_metric (Single srv_proj)
                               (P3 [c])))))))"


section \<open>Horizontal and vertical parts\<close>

text \<open>
  \<open>linalg.solve\<close> of numpy in exact arithmetic: elimination on the rows of the matrix
  extended by the right-hand side. A column without a pivot means a singular matrix, for
  which numpy raises.
\<close>

fun solve_rows :: "nat \<Rightarrow> mat \<Rightarrow> vec option" where
  "solve_rows 0 rows = Some []"
| "solve_rows (Suc k) rows =
     (case find (\<lambda>r. hd r \<noteq> 0) rows of
        None \<Rightarrow> None
      | Some p \<Rightarrow>
         (let pivot = scal (1 / hd p) p;
              reduced = map (\<lambda>r. tl (vec_sub r (scal (hd r) pivot))) (remove1 p rows)
          in case solve_rows k reduced of
               None \<Rightarrow> None
             | Some xs \<Rightarrow> Some ((last pivot - dot (butlast (tl pivot)) xs) # xs)))"

definition linalg_solve :: "mat \<Rightarrow> vec \<Rightarrow> error + vec" where
  "linalg_solve a b =
     (case solve_rows (length a) (map2 (\<lambda>r x. r @ [x]) a b) of
        None \<Rightarrow> Inl LinAlgError
      | Some x \<Rightarrow> Inr x)"

text \<open>
  The matrix \<open>diag (vec_a[:-1], 1) + diag (vec_b) + diag (vec_c[1:], -1)\<close>: \<open>vec_b\<close> on the
  diagonal, \<open>vec_a\<close> above it and \<open>vec_c\<close> below it.
\<close>

definition tridiagonal :: "vec \<Rightarrow> vec \<Rightarrow> vec \<Rightarrow> mat" where
  "tridiagonal vec_a vec_b vec_c =
     map (\<lambda>i. map (\<lambda>j. if j = i + 1 then vec_a ! i
                        else if j = i then vec_b ! i
                        else if i = j + 1 then vec_c ! i
                        else 0) [0..<length vec_b]) [0..<length vec_b]"

definition vec_mul :: "vec \<Rightarrow> vec \<Rightarrow> vec" where
  "vec_mul a b = map2 (*) a b"

definition vec_div :: "vec \<Rightarrow> vec \<Rightarrow> vec" where
  "vec_div a b = map2 (/) a b"

definition vec_sq :: "vec \<Rightarrow> vec" where
  "vec_sq a = map (\<lambda>x. x\<^sup>2) a"

text \<open>
  \<open>QuotientSRVMetric.split_horizontal_vertical\<close>. It has no test on the metric. The
  interior points are those with a neighbour on both sides; the quotients by the norm of
  \<open>d_pos\<close> are a fault where that norm is not positive.
\<close>

definition split_horizontal_vertical ::
    "ambient_metric \<Rightarrow> mat \<Rightarrow> mat \<Rightarrow> error + (mat \<times> mat \<times> vec)" where
  "split_horizontal_vertical m tangent_vec curve =
    (let ambient_dim = (case curve of [] \<Rightarrow> 0 | r # _ \<Rightarrow> length r);
         a_param = 1;
         b_param = 1 / 2;
         quotient = a_param / b_param;
         position = butlast (tl curve);
         d_pos = mat_scal (1 / 2) (mat_sub (drop 2 curve) (butlast (butlast curve)));
         d_vec = mat_scal (1 / 2) (mat_sub (drop 2 tangent_vec) (butlast (butlast tangent_vec)));
         d2_pos = mat_add (mat_sub (drop 2 curve) (mat_scal 2 (butlast (tl curve))))
                    (butlast (butlast curve));
         d2_vec = mat_add (mat_sub (drop 2 tangent_vec) (mat_scal 2 (butlast (tl tangent_vec))))
                    (butlast (butlast tangent_vec))
     in if (\<exists>s \<in> set (pointwise_inner_product m d_pos d_pos position). s \<le> 0)
           \<or> (\<exists>s \<in> set (pointwise_inner_product m d2_pos d2_pos position). s < 0)
        then Inl NumericalFault
        else
         (let vec_a = vec_sub (vec_sq (pointwise_norm m d_pos position))
                        (scal (1 / 2) (pointwise_inner_product m d2_pos d_pos position));
              vec_b = vec_sub (scal (- 2) (vec_sq (pointwise_norm m d_pos position)))
                        (scal (quotient\<^sup>2)
                           (vec_sub (vec_sq (pointwise_norm m d2_pos position))
                              (vec_div (vec_sq (pointwise_inner_product m d2_pos d_pos position))
                                 (vec_sq (pointwise_norm m d_pos position)))));
              vec_c = vec_add (vec_sq (pointwise_norm m d_pos position))
                        (scal (1 / 2) (pointwise_inner_product m d2_pos d_pos position));
              vec_d = vec_mul (pointwise_norm m d_pos position)
                        (vec_add
                           (vec_sub (pointwise_inner_product m d2_vec d_pos position)
                              (scal (quotient\<^sup>2 - 1)
                                 (pointwise_inner_product m d_vec d2_pos position)))
                           (vec_div
                              (vec_mul
                                 (scal (quotient\<^sup>2 - 2)
                                    (pointwise_inner_product m d2_pos d_pos position))
                                 (pointwise_inner_product m d_vec d_pos position))
                              (vec_sq (pointwise_norm m d_pos position))));
              linear_system = tridiagonal vec_a vec_b vec_c
          in case linalg_solve linear_system vec_d of
               Inl e \<Rightarrow> Inl e
             | Inr solution \<Rightarrow>
                (let vertical_norm = [0] @ solution @ [0];
                     unit_speed = map2 (\<lambda>v nrm. scal (1 / nrm) v) d_pos
                                    (pointwise_norm m d_pos position);
                     tangent_vec_ver =
                       [replicate ambient_dim 0]
                       @ map2 (\<lambda>u c. scal c u) unit_speed (butlast (tl vertical_norm))
                       @ [replicate ambient_dim 0];
                     tangent_vec_hor = mat_sub tangent_vec tangent_vec_ver
                 in Inr (tangent_vec_hor, tangent_vec_ver, vertical_norm))))"

section \<open>The reparametrization grid\<close>








text \<open>
  The centered difference of a curve at an interior sampling point, which is \<open>d_pos\<close> in
  \<open>split_horizontal_vertical\<close>, and the unit vector along it, which is \<open>unit_speed\<close>.
\<close>

definition central_difference :: "mat \<Rightarrow> nat \<Rightarrow> vec" where
  "central_difference c i = scal (1 / 2) (vec_sub (c ! (i + 1)) (c ! (i - 1)))"

definition unit_speed_at :: "mat \<Rightarrow> nat \<Rightarrow> vec" where
  "unit_speed_at c i =
     scal (1 / sqrt (dot (central_difference c i) (central_difference c i)))
       (central_difference c i)"


section \<open>Properties of the square root velocity transform\<close>

lemma length_adjacent [simp]: "length (adjacent f xs) = length xs - 1"
  by (simp add: adjacent_def)

lemma nth_adjacent: "Suc i < length xs \<Longrightarrow> adjacent f xs ! i = f (xs ! i) (xs ! Suc i)"
  by (simp add: adjacent_def nth_butlast nth_tl)

lemma adjacent_Cons2: "adjacent f (x # y # zs) = f x y # adjacent f (y # zs)"
  by (simp add: adjacent_def)

lemma adjacent_append:
  assumes "xs \<noteq> []" "ys \<noteq> []"
  shows "adjacent f (xs @ ys) = adjacent f xs @ f (last xs) (hd ys) # adjacent f ys"
  using assms
proof (induction xs rule: list_nonempty_induct)
  case (single x)
  then obtain y ys' where "ys = y # ys'" by (cases ys) auto
  then show ?case by (simp add: adjacent_def)
next
  case (cons x xs)
  then obtain x' xs' where xs: "xs = x' # xs'" by (cases xs) auto
  have "adjacent f ((x # xs) @ ys) = f x x' # adjacent f (xs @ ys)"
    using xs by (simp add: adjacent_Cons2)
  also have "\<dots> = f x x' # adjacent f xs @ f (last xs) (hd ys) # adjacent f ys"
    using cons by simp
  also have "\<dots> = adjacent f (x # xs) @ f (last (x # xs)) (hd ys) # adjacent f ys"
    using xs by (simp add: adjacent_Cons2)
  finally show ?case .
qed

lemma bool_index_nths:
  "bool_index xs (map P [0..<length xs]) = nths xs {i. P i}"
  by (simp add: bool_index_def nths_def zip_map2 filter_map comp_def case_prod_unfold)

lemma srv_staged:
  "map2 (\<lambda>v nrm. if nrm \<le> 0 then None else Some (scal (1 / sqrt nrm) v))
      (map (scal coef) (map2 (amb_log m) (tl F) (butlast F)))
      (map2 (\<lambda>v p. amb_norm m v (Some p)) (map (scal coef) (map2 (amb_log m) (tl F) (butlast F))) (butlast F))
   = adjacent (srv_segment m coef) F"
  by (rule nth_equalityI) (simp_all add: nth_adjacent srv_segment_def Let_def nth_butlast nth_tl)

lemma nths_all_kept: "(\<And>i. i < length xs \<Longrightarrow> i \<in> A) \<Longrightarrow> nths xs A = xs"
  by (rule nths_all) blast

lemma masked_concat:
  assumes "\<forall>c \<in> set cs. length c = n" "0 < n"
  shows "nths (adjacent f (concat cs)) {i. \<not> ((i + 1) mod n = 0)} = concat (map (adjacent f) cs)"
  using assms(1)
proof (induction cs)
  case Nil
  then show ?case by (simp add: adjacent_def)
next
  case (Cons c cs)
  have lc: "length c = n" using Cons.prems by simp
  have keep: "nths (adjacent f c) {i. \<not> ((i + 1) mod n = 0)} = adjacent f c"
  proof (rule nths_all_kept)
    fix i assume "i < length (adjacent f c)"
    then have "i + 1 < n" using lc by simp
    then show "i \<in> {i. \<not> ((i + 1) mod n = 0)}" by simp
  qed
  show ?case
  proof (cases cs)
    case Nil
    then show ?thesis using keep by simp
  next
    case (Cons d ds)
    then have ne: "concat cs \<noteq> []" using Cons.prems assms(2) by auto
    have cne: "c \<noteq> []" using lc assms(2) by auto
    have "\<And>j. (Suc j + length (adjacent f c) + 1) mod n = (j + 1) mod n"
    proof -
      fix j
      have "Suc j + length (adjacent f c) + 1 = (j + 1) + n" using lc assms(2) by simp
      then show "(Suc j + length (adjacent f c) + 1) mod n = (j + 1) mod n"
        by (simp only: mod_add_self2)
    qed
    then have shift: "{j. Suc j + length (adjacent f c) \<in> {i. \<not> ((i + 1) mod n = 0)}} = {i. \<not> ((i + 1) mod n = 0)}"
      by (simp only: mem_Collect_eq)
    have zero: "0 + length (adjacent f c) \<notin> {i. \<not> ((i + 1) mod n = 0)}"
      using lc assms(2) by simp
    have IH: "nths (adjacent f (concat cs)) {i. \<not> ((i + 1) mod n = 0)} = concat (map (adjacent f) cs)"
      using Cons.IH Cons.prems by simp
    have "nths (adjacent f (concat (c # cs))) {i. \<not> ((i + 1) mod n = 0)}
        = nths (adjacent f c @ f (last c) (hd (concat cs)) # adjacent f (concat cs)) {i. \<not> ((i + 1) mod n = 0)}"
      by (simp only: concat.simps adjacent_append[OF cne ne])
    also have "\<dots> = adjacent f c @ nths (adjacent f (concat cs)) {i. \<not> ((i + 1) mod n = 0)}"
      using keep zero shift by (simp add: nths_append nths_Cons del: length_adjacent)
    finally show ?thesis using IH by simp
  qed
qed

lemma drop_concat_rect:
  "\<forall>x \<in> set xss. length x = n \<Longrightarrow> drop (i * n) (concat xss) = concat (drop i xss)"
proof (induction xss arbitrary: i)
  case Nil
  then show ?case by simp
next
  case (Cons x xss)
  then show ?case by (cases i) simp_all
qed

lemma reshape3_concat:
  assumes "\<forall>x \<in> set xss. length x = n"
  shows "reshape3 (length xss) n (concat xss) = xss"
proof (rule nth_equalityI)
  show "length (reshape3 (length xss) n (concat xss)) = length xss"
    by (simp add: reshape3_def)
next
  fix i assume "i < length (reshape3 (length xss) n (concat xss))"
  then have i: "i < length xss" by (simp add: reshape3_def)
  then obtain y ys where d: "drop i xss = y # ys" by (metis Cons_nth_drop_Suc)
  then have y: "y = xss ! i" using i by (metis Cons_nth_drop_Suc list.inject)
  have "length y = n" using assms y i by simp
  then show "reshape3 (length xss) n (concat xss) ! i = xss ! i"
    using i d y by (simp add: reshape3_def drop_concat_rect[OF assms])
qed


lemma length_concat_rect: "\<forall>c \<in> set cs. length c = n \<Longrightarrow> length (concat cs) = length cs * n"
  by (induction cs) simp_all

lemma shape1_rect: "cs \<noteq> [] \<Longrightarrow> \<forall>c \<in> set cs. length c = n \<Longrightarrow> shape1 cs = n"
  by (cases cs) (simp_all add: shape1_def)

lemma square_root_velocity_rect:
  assumes rect: "\<forall>c \<in> set cs. length c = n" and n: "0 < n" and ne: "cs \<noteq> []"
  shows "square_root_velocity m (Batch cs) =
     (if None \<in> set (concat (map (adjacent (srv_segment m (real (n - 1)))) cs))
      then Inl NumericalFault
      else Inr (map (\<lambda>c. map the (adjacent (srv_segment m (real (n - 1))) c)) cs))"
proof -
  let ?f = "srv_segment m (real (n - 1))"
  let ?F = "concat cs"
  have len: "length cs * n - 1 = length (adjacent ?f ?F)"
    using length_concat_rect[OF rect] by simp
  have kept: "bool_index (adjacent ?f ?F) (map (\<lambda>i. \<not> ((i + 1) mod n = 0)) [0..<length cs * n - 1])
      = concat (map (adjacent ?f) cs)"
    unfolding len bool_index_nths using masked_concat[OF rect n] by simp
  have resh: "reshape3 (length cs) (n - 1) (map the (concat (map (adjacent ?f) cs)))
      = map (\<lambda>c. map the (adjacent ?f c)) cs"
  proof -
    have "map the (concat (map (adjacent ?f) cs)) = concat (map (\<lambda>c. map the (adjacent ?f c)) cs)"
      by (simp add: map_concat comp_def)
    moreover have "\<forall>x \<in> set (map (\<lambda>c. map the (adjacent ?f c)) cs). length x = n - 1"
      using rect by simp
    ultimately show ?thesis
      using reshape3_concat[of "map (\<lambda>c. map the (adjacent ?f c)) cs" "n - 1"] by simp
  qed
  show ?thesis
    unfolding square_root_velocity_def Let_def to_ndarray3.simps shape1_rect[OF ne rect]
      srv_staged kept resh by simp
qed

lemma dot_scal: "dot (scal a u) (scal a u) = a\<^sup>2 * dot u u"
  unfolding dot_def scal_def
  by (induction u) (simp_all add: power2_eq_square algebra_simps)

lemma dot_self_nonneg: "0 \<le> dot u u"
  unfolding dot_def by (induction u) simp_all

lemma scal_scal: "scal a (scal b u) = scal (a * b) u"
  by (simp add: scal_def)

lemma scal_one: "scal 1 u = u"
  unfolding scal_def by (induction u) simp_all

lemma length_scal [simp]: "length (scal a u) = length u"
  by (simp add: scal_def)

lemma length_vec_sub [simp]: "length (vec_sub a b) = min (length a) (length b)"
  by (simp add: vec_sub_def)

lemma vec_add_sub: "length p = length q \<Longrightarrow> vec_add p (vec_sub q p) = q"
  unfolding vec_add_def vec_sub_def
  by (induction p q rule: list_induct2) simp_all

lemma euclidean_norm_scal:
  "amb_norm (EuclideanMetric d) (scal a u) b = \<bar>a\<bar> * amb_norm (EuclideanMetric d) u b'"
  by (simp add: dot_scal real_sqrt_mult)

lemma segment_round_trip:
  assumes pos: "0 < amb_norm (EuclideanMetric d) (amb_log (EuclideanMetric d) q p) (Some p)"
      and N: "0 < N"
  shows "\<exists>s. srv_segment (EuclideanMetric d) N p q = Some s \<and>
             scal (1 / N * amb_norm (EuclideanMetric d) s None) s = vec_sub q p"
proof -
  let ?E = "EuclideanMetric d"
  let ?v = "scal N (vec_sub q p)"
  let ?nu = "amb_norm ?E ?v (Some p)"
  have nu: "?nu = N * amb_norm ?E (vec_sub q p) (Some p)"
    using N euclidean_norm_scal[of d N "vec_sub q p" "Some p" "Some p"] by simp
  have nupos: "0 < ?nu" using pos N unfolding nu by simp
  let ?s = "scal (1 / sqrt ?nu) ?v"
  have seg: "srv_segment ?E N p q = Some ?s"
    using nupos by (simp add: srv_segment_def Let_def)
  have "amb_norm ?E ?s None = \<bar>1 / sqrt ?nu\<bar> * ?nu"
    using euclidean_norm_scal[of d "1 / sqrt ?nu" ?v None "Some p"] by simp
  also have "\<dots> = sqrt ?nu"
    using nupos by (simp add: real_div_sqrt)
  finally have ns: "amb_norm ?E ?s None = sqrt ?nu" .
  have "scal (1 / N * amb_norm ?E ?s None) ?s = scal (1 / N * sqrt ?nu * (1 / sqrt ?nu) * N) (vec_sub q p)"
    unfolding ns by (simp add: scal_scal mult.assoc)
  also have "1 / N * sqrt ?nu * (1 / sqrt ?nu) * N = 1"
    using nupos N by simp
  finally show ?thesis using seg by (simp add: scal_one)
qed

lemma cumsum_from_differences:
  assumes "\<forall>r \<in> set (p # rest). length r = d"
  shows "cumsum_from p (adjacent (\<lambda>p q. vec_sub q p) (p # rest)) = rest"
  using assms
proof (induction rest arbitrary: p)
  case Nil
  then show ?case by (simp add: adjacent_def)
next
  case (Cons q rest)
  then show ?case by (simp add: adjacent_Cons2 vec_add_sub)
qed


lemma square_root_velocity_single:
  "square_root_velocity m (Single c) = square_root_velocity m (Batch [c])"
  by (simp add: square_root_velocity_def)

text \<open>
  Claim C9. For a batch of curves of the same number of sampling points, held in one
  array, the transform works curve by curve: slice \<open>k\<close> of the result on the batch is the
  result on curve \<open>k\<close> alone, and it has one row for every segment of curve \<open>k\<close> and none
  for the pair made of the last point of a curve and the first point of the next.
\<close>

theorem square_root_velocity_batch_slices:
  assumes rect: "\<forall>c \<in> set cs. length c = n" and n: "0 < n"
      and batch: "square_root_velocity m (Batch cs) = Inr srv" and k: "k < length cs"
  shows "square_root_velocity m (Single (cs ! k)) = Inr [srv ! k] \<and>
         length srv = length cs \<and> length (srv ! k) = n - 1"
proof -
  let ?f = "srv_segment m (real (n - 1))"
  have ne: "cs \<noteq> []" using k by auto
  have all: "None \<notin> set (concat (map (adjacent ?f) cs))"
    and srv: "srv = map (\<lambda>c. map the (adjacent ?f c)) cs"
    using batch unfolding square_root_velocity_rect[OF rect n ne]
    by (simp_all split: if_splits)
  have ck: "cs ! k \<in> set cs" using k by simp
  then have one: "None \<notin> set (adjacent ?f (cs ! k))" using all by auto
  have rect1: "\<forall>c \<in> set [cs ! k]. length c = n" using rect ck by simp
  have "square_root_velocity m (Single (cs ! k)) = Inr [map the (adjacent ?f (cs ! k))]"
    unfolding square_root_velocity_single
    using square_root_velocity_rect[OF rect1 n] one by simp
  then show ?thesis using srv k rect ck by simp
qed

lemma map2_scal: "map2 (\<lambda>c v. scal c v) (map h xs) xs = map (\<lambda>v. scal (h v) v) xs"
  by (induction xs) simp_all

lemma curve_round_trip:
  assumes len: "length c = n" and n: "2 \<le> n"
      and speeds: "\<forall>s \<in> set (segment_speeds (EuclideanMetric d) c). 0 < s"
  shows "None \<notin> set (adjacent (srv_segment (EuclideanMetric d) (real (n - 1))) c)"
    and "map (\<lambda>s. scal (1 / real (n - 1) * amb_norm (EuclideanMetric d) s None) s)
           (map the (adjacent (srv_segment (EuclideanMetric d) (real (n - 1))) c))
         = adjacent (\<lambda>p q. vec_sub q p) c"
proof -
  let ?E = "EuclideanMetric d"
  let ?f = "srv_segment ?E (real (n - 1))"
  have N: "0 < real (n - 1)" using n by simp
  have sp: "segment_speeds ?E c = adjacent (\<lambda>p q. amb_norm ?E (amb_log ?E q p) (Some p)) c"
    by (simp add: segment_speeds_def adjacent_def)
  have seg: "\<exists>s. ?f (c ! i) (c ! Suc i) = Some s \<and>
       scal (1 / real (n - 1) * amb_norm ?E s None) s = vec_sub (c ! Suc i) (c ! i)"
    if i: "Suc i < length c" for i
  proof -
    have "adjacent (\<lambda>p q. amb_norm ?E (amb_log ?E q p) (Some p)) c ! i \<in> set (segment_speeds ?E c)"
      unfolding sp using i by (intro nth_mem) simp
    then have "0 < adjacent (\<lambda>p q. amb_norm ?E (amb_log ?E q p) (Some p)) c ! i"
      using speeds by blast
    then have "0 < amb_norm ?E (amb_log ?E (c ! Suc i) (c ! i)) (Some (c ! i))"
      using i by (simp only: nth_adjacent)
    then show ?thesis using segment_round_trip[OF _ N] by blast
  qed
  show "None \<notin> set (adjacent ?f c)"
  proof
    assume "None \<in> set (adjacent ?f c)"
    then obtain i where i: "i < length (adjacent ?f c)" and "adjacent ?f c ! i = None"
      by (metis in_set_conv_nth)
    then have "Suc i < length c" "?f (c ! i) (c ! Suc i) = None"
      by (simp_all add: nth_adjacent)
    then show False using seg by fastforce
  qed
  show "map (\<lambda>s. scal (1 / real (n - 1) * amb_norm ?E s None) s) (map the (adjacent ?f c))
         = adjacent (\<lambda>p q. vec_sub q p) c"
  proof (rule nth_equalityI)
    show "length (map (\<lambda>s. scal (1 / real (n - 1) * amb_norm ?E s None) s) (map the (adjacent ?f c)))
        = length (adjacent (\<lambda>p q. vec_sub q p) c)" by simp
  next
    fix i
    assume "i < length (map (\<lambda>s. scal (1 / real (n - 1) * amb_norm ?E s None) s) (map the (adjacent ?f c)))"
    then have i: "Suc i < length c" by simp
    then have i': "i < length (adjacent ?f c)" by simp
    obtain s where s: "?f (c ! i) (c ! Suc i) = Some s"
       "scal (1 / real (n - 1) * amb_norm ?E s None) s = vec_sub (c ! Suc i) (c ! i)"
      using seg[OF i] by blast
    show "map (\<lambda>s. scal (1 / real (n - 1) * amb_norm ?E s None) s) (map the (adjacent ?f c)) ! i
        = adjacent (\<lambda>p q. vec_sub q p) c ! i"
      using i i' s by (simp add: nth_adjacent del: length_adjacent)
  qed
qed

lemma cumsum_curve:
  assumes "c \<noteq> []" "\<forall>r \<in> set c. length r = d"
  shows "cumsum (hd c # adjacent (\<lambda>p q. vec_sub q p) c) = c"
proof -
  obtain p rest where c: "c = p # rest" using assms(1) by (cases c) auto
  show ?thesis using cumsum_from_differences[of p rest d] assms(2)
    unfolding c by (simp add: cumsum_def)
qed

lemma row_width_ok_single:
  assumes "length p = w" "\<forall>r \<in> set rs. length r = w"
  shows "row_width_ok [p] rs"
  using assms by (simp add: row_width_ok_def)

lemma map2_append_single: "map2 (@) (map (\<lambda>p. [p]) ps) rs = map2 (#) ps rs"
  by (induction ps arbitrary: rs) (auto split: list.splits simp: zip_Cons1)

lemma inverse_batch_rect:
  assumes ne: "srv \<noteq> []" and rect: "\<forall>r \<in> set srv. length r = k" and k: "0 < k"
      and len: "length sp = length srv"
      and widths: "list_all2 row_width_ok (map (\<lambda>p. [p]) sp)
                     (map (map (\<lambda>s. scal (1 / real k * amb_norm (EuclideanMetric d) s None) s)) srv)"
  shows "square_root_velocity_inverse (EuclideanMetric d) (Batch srv) (P2 sp) =
           Inr (Batch (map cumsum (map2 (#) sp
             (map (map (\<lambda>s. scal (1 / real k * amb_norm (EuclideanMetric d) s None) s)) srv))))"
proof -
  let ?E = "EuclideanMetric d"
  let ?g = "\<lambda>s. scal (1 / real k * amb_norm ?E s None) s"
  have sh: "shape1 srv = k" using shape1_rect[OF ne rect] .
  have flat: "map2 (\<lambda>c v. scal c v)
                (map (\<lambda>nrm. 1 / real k * nrm) (map (\<lambda>v. amb_norm ?E v None) (concat srv)))
                (concat srv) = map ?g (concat srv)"
    using map2_scal[of "\<lambda>s. 1 / real k * amb_norm ?E s None" "concat srv"]
    by (simp only: map_map comp_def)
  have resh: "reshape3 (length srv) k (map ?g (concat srv)) = map (map ?g) srv"
  proof -
    have "map ?g (concat srv) = concat (map (map ?g) srv)" by (simp only: map_concat)
    moreover have "\<forall>r \<in> set (map (map ?g) srv). length r = k" using rect by simp
    ultimately show ?thesis using reshape3_concat[of "map (map ?g) srv" k] by simp
  qed
  have cat: "concatenate (Batch (map (\<lambda>p. [p]) sp)) (Batch (map (map ?g) srv))
      = Inr (Batch (map2 (#) sp (map (map ?g) srv)))"
    using widths len by (simp add: map2_append_single)
  have k0: "k \<noteq> 0" using k by simp
  show ?thesis
    unfolding square_root_velocity_inverse_def
    by (simp only: is_euclidean.simps adapt_starting_point.simps to_ndarray3.simps Let_def sh
          flat resh cat k0 curves.case sum.case cumsum_rows.simps if_False not_True_eq_False)
qed


lemma map2_Cons_maps: "map2 (#) (map f xs) (map g xs) = map (\<lambda>c. f c # g c) xs"
  by (induction xs) simp_all

lemma adjacent_differences_width:
  assumes "\<forall>p \<in> set c. length p = w" "r \<in> set (adjacent (\<lambda>p q. vec_sub q p) c)"
  shows "length r = w"
proof -
  obtain i where i: "i < length (adjacent (\<lambda>p q. vec_sub q p) c)"
      and r: "adjacent (\<lambda>p q. vec_sub q p) c ! i = r"
    using assms(2) unfolding in_set_conv_nth by blast
  have si: "Suc i < length c" using i by simp
  then have "r = vec_sub (c ! Suc i) (c ! i)" using r by (simp only: nth_adjacent)
  moreover have "length (c ! Suc i) = w" "length (c ! i) = w" using assms(1) si by simp_all
  ultimately show ?thesis by simp
qed

text \<open>
  Claim C1. In a Euclidean ambient space, for curves of at least two sampling points whose
  segments all have positive speed, the inverse transform applied to the transform of the
  curves and to their first sampling points gives the curves back. Arithmetic is exact
  here, so the round trip is an equality.
\<close>

theorem square_root_velocity_round_trip:
  assumes shape: "\<forall>c \<in> set (to_ndarray3 x). length c = n \<and> (\<forall>p \<in> set c. length p = w)"
      and ne: "to_ndarray3 x \<noteq> []" and n: "2 \<le> n"
      and speeds: "\<forall>c \<in> set (to_ndarray3 x). \<forall>s \<in> set (segment_speeds (EuclideanMetric d) c). 0 < s"
  shows "\<exists>srv. square_root_velocity (EuclideanMetric d) x = Inr srv \<and>
           square_root_velocity_inverse (EuclideanMetric d) (Batch srv)
             (P2 (map hd (to_ndarray3 x))) = Inr (Batch (to_ndarray3 x))"
proof -
  let ?E = "EuclideanMetric d"
  let ?cs = "to_ndarray3 x"
  let ?f = "srv_segment ?E (real (n - 1))"
  let ?R = "\<lambda>c. map the (adjacent ?f c)"
  let ?g = "\<lambda>s. scal (1 / real (n - 1) * amb_norm ?E s None) s"
  let ?D = "adjacent (\<lambda>p q. vec_sub q p)"
  have rect: "\<forall>c \<in> set ?cs. length c = n" using shape by blast
  have n0: "0 < n" using n by simp
  have x: "square_root_velocity ?E x = square_root_velocity ?E (Batch ?cs)"
    by (cases x) (simp_all only: to_ndarray3.simps square_root_velocity_single)
  have per_curve: "None \<notin> set (adjacent ?f c) \<and> map ?g (?R c) = ?D c" if c: "c \<in> set ?cs" for c
  proof -
    have "length c = n" using rect c by blast
    moreover have "\<forall>s \<in> set (segment_speeds ?E c). 0 < s" using speeds c by blast
    ultimately show ?thesis using curve_round_trip[OF _ n] by blast
  qed
  have none: "None \<notin> set (concat (map (adjacent ?f) ?cs))"
  proof
    assume "None \<in> set (concat (map (adjacent ?f) ?cs))"
    then obtain c where "c \<in> set ?cs" "None \<in> set (adjacent ?f c)" by auto
    then show False using per_curve by blast
  qed
  have fwd: "square_root_velocity ?E x = Inr (map ?R ?cs)"
    unfolding x square_root_velocity_rect[OF rect n0 ne] using none by simp
  have deltas: "map (map ?g) (map ?R ?cs) = map ?D ?cs"
    using per_curve by simp
  have rectR: "\<forall>r \<in> set (map ?R ?cs). length r = n - 1" using rect by simp
  have neR: "map ?R ?cs \<noteq> []" using ne by simp
  have k: "0 < n - 1" using n by simp
  have len: "length (map hd ?cs) = length (map ?R ?cs)" by simp
  have width: "row_width_ok [hd c] (?D c)" if c: "c \<in> set ?cs" for c
  proof (rule row_width_ok_single[of _ w])
    have "c \<noteq> []" using rect c n by auto
    then have "hd c \<in> set c" by simp
    then show "length (hd c) = w" using shape c by blast
    show "\<forall>r \<in> set (?D c). length r = w"
      using adjacent_differences_width[of c w] shape c by blast
  qed
  have widths: "list_all2 row_width_ok (map (\<lambda>p. [p]) (map hd ?cs)) (map (map ?g) (map ?R ?cs))"
    unfolding deltas using width by (simp add: list_all2_conv_all_nth)
  have cs: "map cumsum (map2 (#) (map hd ?cs) (map ?D ?cs)) = ?cs"
  proof -
    have "map2 (#) (map hd ?cs) (map ?D ?cs) = map (\<lambda>c. hd c # ?D c) ?cs"
      by (rule map2_Cons_maps)
    moreover have "cumsum (hd c # ?D c) = c" if c: "c \<in> set ?cs" for c
    proof (rule cumsum_curve[of c w])
      show "c \<noteq> []" using rect c n by auto
      show "\<forall>r \<in> set c. length r = w" using shape c by blast
    qed
    ultimately show ?thesis by (simp add: map_idI)
  qed
  have "square_root_velocity_inverse ?E (Batch (map ?R ?cs)) (P2 (map hd ?cs)) = Inr (Batch ?cs)"
    unfolding inverse_batch_rect[OF neR rectR k len widths] deltas cs ..
  then show ?thesis using fwd by blast
qed

text \<open>
  Two curves in one batch; the last point of the first is the first point of the second,
  so the pair across the boundary has speed zero and would be a fault if it were kept.
\<close>

lemma batch_example:
  "square_root_velocity (EuclideanMetric 2) (Batch [[[0,0],[1,0]], [[1,0],[1,4]]])
     = Inr [[[1,0]], [[0,2]]]"
  using square_root_velocity_rect[of "[[[0,0],[1,0]], [[1,0],[1,4]]]" 2 "EuclideanMetric 2"]
  by (simp add: adjacent_def srv_segment_def scal_def vec_sub_def dot_def)

theorem square_root_velocity_batch_slices_witness:
  "square_root_velocity (EuclideanMetric 2) (Single ([[[0,0],[1,0]], [[1,0],[1,4]]] ! 1))
      = Inr [[[[1,0]], [[0,2]]] ! 1]"
  using square_root_velocity_batch_slices[of "[[[0,0],[1,0]], [[1,0],[1,4]]]" 2
      "EuclideanMetric 2" "[[[1,0]], [[0,2]]]" 1] batch_example
  by simp

theorem square_root_velocity_round_trip_witness:
  "\<exists>srv. square_root_velocity (EuclideanMetric 2) (Single [[0,0],[1,0],[2,0]]) = Inr srv \<and>
     square_root_velocity_inverse (EuclideanMetric 2) (Batch srv) (P2 [[0,0]])
        = Inr (Batch [[[0,0],[1,0],[2,0]]])"
  using square_root_velocity_round_trip[of "Single [[0,0],[1,0],[2,0]]" 3 2 2]
  by (simp add: segment_speeds_def vec_sub_def dot_def)

section \<open>Properties of the projection and of the guards\<close>

lemma cumsum_Cons: "cumsum (p # rs) = p # cumsum_from p rs"
  by (simp add: cumsum_def)

lemma inverse_single_start:
  assumes "square_root_velocity_inverse m (Single srv) (P2 [p]) = Inr r"
  shows "\<exists>q. r = Single (p # q)"
  using assms unfolding square_root_velocity_inverse_def
  by (auto simp: Let_def cumsum_Cons split: if_splits sum.splits)

text \<open>
  Claim C10. When \<open>ClosedDiscreteCurves.project\<close> returns for a single curve, the curve it
  returns starts at the first sampling point of the curve it was given: the projection
  changes the square root velocity representation only, and the inverse transform starts
  its cumulative sum at that point.
\<close>

theorem project_keeps_starting_point:
  assumes "project ambient_manifold (Single curve) atol max_iter = Inr closed_curve"
  shows "\<exists>q. closed_curve = Single q \<and> q \<noteq> [] \<and> curve \<noteq> [] \<and> hd q = hd curve"
proof -
  obtain p rest where c: "curve = p # rest"
    using assms unfolding project_def
    by (cases curve) (auto simp: Let_def split: if_splits sum.splits list.splits)
  obtain srv_proj where
    "square_root_velocity_inverse (manifold_metric ambient_manifold) (Single srv_proj) (P2 [p])
       = Inr closed_curve"
    using assms unfolding project_def c
    by (auto simp: Let_def split: if_splits sum.splits list.splits)
  then obtain q where "closed_curve = Single (p # q)" using inverse_single_start by blast
  then show ?thesis using c by simp
qed

text \<open>The unit square, which is closed already: the loop of the projection does not run.\<close>

lemma project_example:
  "project (Euclidean 2) (Single [[0,0],[1,0],[1,1],[0,1],[0,0]]) (1 / 1000000) 1000
     = Inr (Single [[0,0],[1,0],[1,1],[0,1],[0,0]])"
proof -
  have srv: "square_root_velocity (EuclideanMetric 2) (Single [[0,0],[1,0],[1,1],[0,1],[0,0]])
      = Inr [[[2,0],[0,2],[-2,0],[0,-2]]]"
    unfolding square_root_velocity_single
    using square_root_velocity_rect[of "[[[0,0],[1,0],[1,1],[0,1],[0,0]]]" 5 "EuclideanMetric 2"]
    by (simp add: adjacent_def srv_segment_def scal_def vec_sub_def dot_def)
  have st: "measure_proj (EuclideanMetric 2) [[2,0],[0,2],[-2,0],[0,-2]] 0
      = \<lparr>proj = [[2,0],[0,2],[-2,0],[0,-2]], proj_norms = [2,2,2,2], residual = [0,0],
         criteria = 0, nb_iter = 0\<rparr>"
    by (simp add: measure_proj_def g_criterion_def sum_axis0_def scal_def vec_add_def dot_def
          numeral_2_eq_2)
  have pr: "project_srv (EuclideanMetric 2) [[2,0],[0,2],[-2,0],[0,-2]] (1 / 1000000) 1000
      = Inr [[2,0],[0,2],[-2,0],[0,-2]]"
    unfolding project_srv_def project_srv_run_def Let_def st
    by (simp add: project_srv_loop.simps)
  have inv: "square_root_velocity_inverse (EuclideanMetric 2) (Single [[2,0],[0,2],[-2,0],[0,-2]])
      (P2 [[0,0]]) = Inr (Single [[0,0],[1,0],[1,1],[0,1],[0,0]])"
    by (simp add: square_root_velocity_inverse_def shape1_def Let_def scal_def dot_def
          row_width_ok_def cumsum_def vec_add_def)
  show ?thesis
    unfolding project_def by (simp add: srv pr inv)
qed

theorem project_keeps_starting_point_witness:
  "project (Euclidean 2) (Single [[0,0],[1,0],[1,1],[0,1],[0,0]]) (1 / 1000000) 1000
     = Inr (Single [[0,0],[1,0],[1,1],[0,1],[0,0]]) \<and>
   (\<exists>q. Single [[0,0],[1,0],[1,1],[0,1],[0,0]] = Single q \<and> q \<noteq> [] \<and> hd q = [0, 0])"
  using project_keeps_starting_point[OF project_example] project_example by simp


text \<open>
  Claim C6. With an ambient metric that is not Euclidean, the inverse transform, the
  differential, the inner product, the exponential, the logarithm, the geodesic and the
  distance raise \<open>AssertionError\<close>, whatever their other arguments; so do \<open>project_srv\<close>
  with a metric that is not the Euclidean metric of the plane and \<open>project\<close> with a
  manifold that is not the Euclidean plane. None of them returns a value then.
\<close>

theorem unsupported_geometry:
  "(\<not> is_euclidean m \<longrightarrow>
      square_root_velocity_inverse m srv starting_point = Inl AssertionError \<and>
      d_square_root_velocity m tangent_vec curve = Inl AssertionError \<and>
      inner_product m tangent_vec_a tangent_vec_b curve = Inl AssertionError \<and>
      exp_curve m tangent_vecs base_point = Inl AssertionError \<and>
      log_curve m point base_point = Inl AssertionError \<and>
      geodesic rtol atol m initial_curve end_curve initial_tangent_vec = Inl AssertionError \<and>
      dist_curve m point_a point_b = Inl AssertionError) \<and>
   (\<not> is_planar m' \<longrightarrow> project_srv m' srv' atol' max_iter = Inl AssertionError) \<and>
   (\<not> is_planar_manifold ambient_manifold \<longrightarrow>
      project ambient_manifold curves atol' max_iter = Inl AssertionError)"
  by (simp add: square_root_velocity_inverse_def d_square_root_velocity_def inner_product_def
        exp_curve_def log_curve_def geodesic_def dist_curve_def project_srv_def
        project_srv_run_def project_def)

theorem unsupported_geometry_witness:
  "\<not> is_euclidean minkowski_metric \<and> \<not> is_planar (EuclideanMetric 3) \<and>
   \<not> is_planar_manifold (OtherManifold minkowski_metric) \<and>
   square_root_velocity_inverse minkowski_metric (Single [[1, 0]]) (P2 [[0, 0]])
     = Inl AssertionError \<and>
   exp_curve minkowski_metric (Single [[0, 0], [0, 0]]) (Single [[0, 0], [1, 0]])
     = Inl AssertionError \<and>
   dist_curve minkowski_metric [[0, 0], [1, 0]] [[0, 0], [0, 1]] = Inl AssertionError \<and>
   project_srv (EuclideanMetric 3) [[1, 0, 0]] (1 / 1000000) 1000 = Inl AssertionError \<and>
   project (OtherManifold minkowski_metric) (Single [[0, 0], [1, 0]]) (1 / 1000000) 1000
     = Inl AssertionError"
  using unsupported_geometry[where m = minkowski_metric and srv = "Single [[1, 0]]"
      and starting_point = "P2 [[0, 0]]" and tangent_vecs = "Single [[0, 0], [0, 0]]"
      and base_point = "Single [[0, 0], [1, 0]]" and point_a = "[[0, 0], [1, 0]]"
      and point_b = "[[0, 0], [0, 1]]" and m' = "EuclideanMetric 3" and srv' = "[[1, 0, 0]]"
      and atol' = "1 / 1000000" and max_iter = 1000
      and ambient_manifold = "OtherManifold minkowski_metric"
      and curves = "Single [[0, 0], [1, 0]]"]
  by (simp add: minkowski_metric_def)

section \<open>Properties of the geodesic and of the distance\<close>

text \<open>
  Claim C7. In a Euclidean ambient space, \<open>geodesic\<close> raises \<open>ValueError\<close> when neither an
  end curve nor an initial tangent vector is given. When both are given and the logarithm
  of the end curve returns the shooting tangent vector, it raises \<open>RuntimeError\<close> if that
  vector is not within the tolerances of the given one, and otherwise returns the path of
  the shooting tangent vector, as it does when the end curve alone is given.
\<close>

theorem geodesic_controls:
  assumes "is_euclidean m"
  shows "geodesic rtol atol m initial_curve None None = Inl ValueError \<and>
    (log_curve m (Batch (to_ndarray3 end_curve)) (Batch (to_ndarray3 initial_curve))
         = Inr shooting_tangent_vec \<longrightarrow>
       geodesic rtol atol m initial_curve (Some end_curve) None
         = Inr (path m (to_ndarray3 initial_curve) shooting_tangent_vec) \<and>
       (broadcast_batch shooting_tangent_vec (to_ndarray3 initial_tangent_vec) = Inr (a, b) \<longrightarrow>
        same_shape a b \<longrightarrow>
          geodesic rtol atol m initial_curve (Some end_curve) (Some initial_tangent_vec)
            = (if allclose rtol atol a b
               then Inr (path m (to_ndarray3 initial_curve) shooting_tangent_vec)
               else Inl RuntimeError)))"
  using assms by (simp add: geodesic_def Let_def)

lemma log_example:
  "log_curve (EuclideanMetric 2) (Batch [[[0, 0], [1, 0]]]) (Batch [[[0, 0], [1, 0]]])
     = Inr [[[0, 0], [0, 0]]]"
proof -
  have srv: "square_root_velocity (EuclideanMetric 2) (Batch [[[0, 0], [1, 0]]]) = Inr [[[1, 0]]]"
    using square_root_velocity_rect[of "[[[0, 0], [1, 0]]]" 2 "EuclideanMetric 2"]
    by (simp add: adjacent_def srv_segment_def scal_def vec_sub_def dot_def)
  have der: "log_derivative_of (EuclideanMetric 2) (Suc (Suc 0)) [[1, 0]] [[1, 0]] [[0, 0], [1, 0]]
      = Inr [[0, 0]]"
    by (simp add: log_derivative_of_def pointwise_inner_product_def pointwise_norm_def
          mat_scal_def mat_sub_def mat_add_def scal_def vec_sub_def vec_add_def dot_def Let_def)
  show ?thesis
    unfolding log_curve_def
    by (simp add: srv der Let_def shape1_def shape2_def broadcast_batch_def cumsum_def
          vec_sub_def vec_add_def scal_def)
qed

theorem geodesic_controls_witness:
  "is_euclidean (EuclideanMetric 2) \<and>
   geodesic (1 / 1000000) (1 / 1000000000000) (EuclideanMetric 2) (Single [[0, 0], [1, 0]])
     None None = Inl ValueError \<and>
   geodesic (1 / 1000000) (1 / 1000000000000) (EuclideanMetric 2) (Single [[0, 0], [1, 0]])
     (Some (Single [[0, 0], [1, 0]])) (Some (Single [[1, 0], [0, 0]])) = Inl RuntimeError \<and>
   geodesic (1 / 1000000) (1 / 1000000000000) (EuclideanMetric 2) (Single [[0, 0], [1, 0]])
     (Some (Single [[0, 0], [1, 0]])) (Some (Single [[0, 0], [0, 0]]))
     = Inr (path (EuclideanMetric 2) [[[0, 0], [1, 0]]] [[[0, 0], [0, 0]]])"
  using geodesic_controls[of "EuclideanMetric 2" "1 / 1000000" "1 / 1000000000000"
      "Single [[0, 0], [1, 0]]" "Single [[0, 0], [1, 0]]" "[[[0, 0], [0, 0]]]"
      "Single [[1, 0], [0, 0]]" "[[[0, 0], [0, 0]]]" "[[[1, 0], [0, 0]]]"]
    geodesic_controls[of "EuclideanMetric 2" "1 / 1000000" "1 / 1000000000000"
      "Single [[0, 0], [1, 0]]" "Single [[0, 0], [1, 0]]" "[[[0, 0], [0, 0]]]"
      "Single [[0, 0], [0, 0]]" "[[[0, 0], [0, 0]]]" "[[[0, 0], [0, 0]]]"]
    log_example
  by (simp add: broadcast_batch_def same_shape_def allclose_def)


lemma square_root_velocity_returns:
  assumes ne: "c \<noteq> []"
      and speeds: "\<forall>s \<in> set (segment_speeds (EuclideanMetric d) c). 0 < s"
  shows "\<exists>srv. square_root_velocity (EuclideanMetric d) (Single c) = Inr [srv]"
proof -
  let ?n = "length c"
  let ?f = "srv_segment (EuclideanMetric d) (real (?n - 1))"
  have n: "0 < ?n" using ne by simp
  have rect: "\<forall>c' \<in> set [c]. length c' = ?n" by simp
  have none: "None \<notin> set (adjacent ?f c)"
  proof (cases "2 \<le> ?n")
    case True
    then show ?thesis using curve_round_trip(1)[OF refl True speeds] by simp
  next
    case False
    then have "length (adjacent ?f c) = 0" by simp
    then have "adjacent ?f c = []" by (simp only: length_0_conv)
    then show ?thesis by (simp only: list.set empty_iff not_False_eq_True)
  qed
  show ?thesis
    unfolding square_root_velocity_single
    using square_root_velocity_rect[OF rect n] none by simp
qed

text \<open>
  Claim C8. In a Euclidean ambient space, \<open>dist\<close> of two single curves of different shapes
  raises \<open>ValueError\<close>. For two curves of the same shape, with at least one point and with
  segments of positive speed, both transforms return and the distance is the square root
  of the squared distance of the starting points plus the squared distance of the two
  representations in the product metric.
\<close>

theorem dist_formula:
  "(shape_of point_a \<noteq> shape_of point_b \<longrightarrow>
      dist_curve (EuclideanMetric d) point_a point_b = Inl ValueError) \<and>
   (shape_of point_a = shape_of point_b \<longrightarrow> point_a \<noteq> [] \<longrightarrow>
    (\<forall>s \<in> set (segment_speeds (EuclideanMetric d) point_a). 0 < s) \<longrightarrow>
    (\<forall>s \<in> set (segment_speeds (EuclideanMetric d) point_b). 0 < s) \<longrightarrow>
      (\<exists>srv_a srv_b.
         square_root_velocity (EuclideanMetric d) (Single point_a) = Inr [srv_a] \<and>
         square_root_velocity (EuclideanMetric d) (Single point_b) = Inr [srv_b] \<and>
         dist_curve (EuclideanMetric d) point_a point_b =
           Inr [sqrt ((amb_dist (EuclideanMetric d) (hd point_a) (hd point_b))\<^sup>2
                      + (l2_dist (EuclideanMetric d) srv_a srv_b)\<^sup>2)]))"
proof (intro conjI impI)
  assume "shape_of point_a \<noteq> shape_of point_b"
  then show "dist_curve (EuclideanMetric d) point_a point_b = Inl ValueError"
    by (simp add: dist_curve_def)
next
  assume sh: "shape_of point_a = shape_of point_b" and ne: "point_a \<noteq> []"
     and sa: "\<forall>s \<in> set (segment_speeds (EuclideanMetric d) point_a). 0 < s"
     and sb: "\<forall>s \<in> set (segment_speeds (EuclideanMetric d) point_b). 0 < s"
  have "length point_a = length point_b" using sh by (simp add: shape_of_def)
  then have neb: "point_b \<noteq> []" using ne by auto
  obtain srv_a where a: "square_root_velocity (EuclideanMetric d) (Single point_a) = Inr [srv_a]"
    using square_root_velocity_returns[OF ne sa] by blast
  obtain srv_b where b: "square_root_velocity (EuclideanMetric d) (Single point_b) = Inr [srv_b]"
    using square_root_velocity_returns[OF neb sb] by blast
  obtain pa ra where pa: "point_a = pa # ra" using ne by (cases point_a) auto
  obtain pb rb where pb: "point_b = pb # rb" using neb by (cases point_b) auto
  have "dist_curve (EuclideanMetric d) point_a point_b =
      Inr [sqrt ((amb_dist (EuclideanMetric d) (hd point_a) (hd point_b))\<^sup>2
                 + (l2_dist (EuclideanMetric d) srv_a srv_b)\<^sup>2)]"
    unfolding dist_curve_def using sh a b by (simp add: pa pb Let_def)
  then show "\<exists>srv_a srv_b.
         square_root_velocity (EuclideanMetric d) (Single point_a) = Inr [srv_a] \<and>
         square_root_velocity (EuclideanMetric d) (Single point_b) = Inr [srv_b] \<and>
         dist_curve (EuclideanMetric d) point_a point_b =
           Inr [sqrt ((amb_dist (EuclideanMetric d) (hd point_a) (hd point_b))\<^sup>2
                      + (l2_dist (EuclideanMetric d) srv_a srv_b)\<^sup>2)]"
    using a b by blast
qed

lemma dist_example_srv:
  "square_root_velocity (EuclideanMetric 2) (Single [[0, 0], [1, 0]]) = Inr [[[1, 0]]]"
  "square_root_velocity (EuclideanMetric 2) (Single [[0, 0], [0, 1]]) = Inr [[[0, 1]]]"
  unfolding square_root_velocity_single
  using square_root_velocity_rect[of "[[[0, 0], [1, 0]]]" 2 "EuclideanMetric 2"]
    square_root_velocity_rect[of "[[[0, 0], [0, 1]]]" 2 "EuclideanMetric 2"]
  by (simp_all add: adjacent_def srv_segment_def scal_def vec_sub_def dot_def)

theorem dist_formula_witness:
  "shape_of [[0, 0], [1, 0]] = shape_of [[0, 0], [0, 1]] \<and>
   shape_of [[0, 0], [1, 0]] \<noteq> shape_of [[0, 0], [0, 1], [0, 2]] \<and>
   dist_curve (EuclideanMetric 2) [[0, 0], [1, 0]] [[0, 0], [0, 1]] = Inr [sqrt 2] \<and>
   dist_curve (EuclideanMetric 2) [[0, 0], [1, 0]] [[0, 0], [0, 1], [0, 2]] = Inl ValueError"
  using dist_formula[of "[[0, 0], [1, 0]]" "[[0, 0], [0, 1]]" 2]
    dist_formula[of "[[0, 0], [1, 0]]" "[[0, 0], [0, 1], [0, 2]]" 2] dist_example_srv
  by (simp add: shape_of_def segment_speeds_def vec_sub_def dot_def l2_dist_def l2_log_def
        l2_inner_product_def)

section \<open>Properties of the projection of representations\<close>

lemma upt_0_2: "[0..<2] = [0, Suc 0]"
  by (simp add: upt_rec numeral_2_eq_2)

lemma upt_1_2: "[Suc 0..<2] = [Suc 0]"
  by (simp add: upt_rec numeral_2_eq_2)

lemma from_vector_2: "from_vector 2 [x, y, z] = [[x, y], [y, z]]"
  by (simp add: from_vector_def upper_index_def upt_0_2 numeral_2_eq_2)

lemma eye_2: "eye 2 = [[1, 0], [0, 1]]"
  by (simp add: eye_def upt_0_2)

lemma planar_metric: "is_planar m \<Longrightarrow> m = EuclideanMetric 2"
  by (cases m) simp_all

lemma g_jacobian_2:
  "mat_add (from_vector 2
      (concat (map (\<lambda>i. map (\<lambda>j. 3 * amb_inner_product (EuclideanMetric 2) (column p i)
                                  (column p j) None) [i..<2]) [0..<2])))
     (mat_scal s (eye 2))
   = [[3 * dot (column p 0) (column p 0) + s, 3 * dot (column p 0) (column p (Suc 0))],
      [3 * dot (column p 0) (column p (Suc 0)), 3 * dot (column p (Suc 0)) (column p (Suc 0)) + s]]"
  by (simp add: upt_0_2 upt_1_2 from_vector_2 eye_2 mat_add_def mat_scal_def vec_add_def scal_def)

text \<open>A straight segment: the loop of the projection comes back to it at every pass.\<close>

lemma segment_state:
  "measure_proj (EuclideanMetric 2) [[1, 0], [1, 0]] k
     = \<lparr>proj = [[1, 0], [1, 0]], proj_norms = [1, 1], residual = [2, 0], criteria = 2,
        nb_iter = k\<rparr>"
  by (simp add: measure_proj_def g_criterion_def sum_axis0_def scal_def vec_add_def dot_def
        numeral_2_eq_2)

lemma sqrt_25_49: "sqrt (25 / 49) = 5 / 7"
  by (rule real_sqrt_unique) (simp_all add: power2_eq_square)

lemma segment_step:
  "newton_step (EuclideanMetric 2) 1
     \<lparr>proj = [[1, 0], [1, 0]], proj_norms = [1, 1], residual = [2, 0], criteria = 2,
        nb_iter = k\<rparr> = Inr [[1, 0], [1, 0]]"
  unfolding newton_step_def Let_def metric_dim.simps g_jacobian_2
  by (simp add: column_def dot_def srv_norm_def srv_inner_product_def l2_inner_product_def
        matvec_def mat_scal_def mat_sub_def mat_add_def scal_def vec_add_def vec_sub_def
        sqrt_25_49 power2_eq_square)


lemma l2_inner_product_self:
  "l2_inner_product (EuclideanMetric d) p p = sum_list (map (\<lambda>r. dot r r) p)"
  by (simp add: l2_inner_product_def zip_same_conv_map comp_def)

lemma sum_dot_nonneg: "0 \<le> sum_list (map (\<lambda>r. dot r r) p)"
  by (rule sum_list_nonneg) (auto simp: dot_self_nonneg)

lemma srv_norm_nonneg: "0 \<le> srv_norm (EuclideanMetric d) p"
  by (simp add: srv_norm_def srv_inner_product_def l2_inner_product_self sum_dot_nonneg)

lemma dot_times: "dot (map (\<lambda>x. x * c) r) (map (\<lambda>x. x * c) r) = c\<^sup>2 * dot r r"
  unfolding dot_def by (induction r) (simp_all add: power2_eq_square algebra_simps)

lemma srv_norm_times:
  "srv_norm (EuclideanMetric d) (map (map (\<lambda>x. x * c)) p) = \<bar>c\<bar> * srv_norm (EuclideanMetric d) p"
proof -
  have "sum_list (map (\<lambda>r. dot r r) (map (map (\<lambda>x. x * c)) p))
      = c\<^sup>2 * sum_list (map (\<lambda>r. dot r r) p)"
    by (simp add: comp_def dot_times sum_list_const_mult)
  then have "srv_norm (EuclideanMetric d) (map (map (\<lambda>x. x * c)) p)
      = sqrt (c\<^sup>2 * (sum_list (map (\<lambda>r. dot r r) p) / real (length p)))"
    by (simp add: srv_norm_def srv_inner_product_def l2_inner_product_self)
  also have "\<dots> = \<bar>c\<bar> * sqrt (sum_list (map (\<lambda>r. dot r r) p) / real (length p))"
    by (simp only: real_sqrt_mult real_sqrt_abs)
  finally show ?thesis
    by (simp add: srv_norm_def srv_inner_product_def l2_inner_product_self)
qed

lemma newton_step_form:
  assumes "newton_step m initial_norm st = Inr p"
  shows "\<exists>q. srv_norm m q \<noteq> 0 \<and> p = map (map (\<lambda>x. x * initial_norm / srv_norm m q)) q"
  using assms unfolding newton_step_def Let_def
  by (auto split: sum.splits if_splits)

lemma newton_step_norm:
  assumes step: "newton_step (EuclideanMetric d) initial_norm st = Inr p"
      and nn: "0 \<le> initial_norm"
  shows "srv_norm (EuclideanMetric d) p = initial_norm"
proof -
  let ?E = "EuclideanMetric d"
  obtain q where q: "srv_norm ?E q \<noteq> 0"
      and p: "p = map (map (\<lambda>x. x * initial_norm / srv_norm ?E q)) q"
    using newton_step_form[OF step] by blast
  have pos: "0 < srv_norm ?E q" using q srv_norm_nonneg[of d q] by simp
  have "p = map (map (\<lambda>x. x * (initial_norm / srv_norm ?E q))) q"
    unfolding p by simp
  then have "srv_norm ?E p = \<bar>initial_norm / srv_norm ?E q\<bar> * srv_norm ?E q"
    by (simp only: srv_norm_times)
  also have "\<dots> = initial_norm" using pos nn by simp
  finally show ?thesis .
qed

lemma proj_measure_proj [simp]: "proj (measure_proj m p k) = p"
  by (simp add: measure_proj_def Let_def)

lemma nb_iter_measure_proj [simp]: "nb_iter (measure_proj m p k) = k"
  by (simp add: measure_proj_def Let_def)

lemma loop_keeps_norm:
  assumes "project_srv_loop (EuclideanMetric d) initial_norm atol max_iter st = Inr st'"
      and "0 \<le> initial_norm"
      and "srv_norm (EuclideanMetric d) (proj st) = initial_norm"
  shows "srv_norm (EuclideanMetric d) (proj st') = initial_norm"
  using assms
proof (induction "EuclideanMetric d" initial_norm atol max_iter st rule: project_srv_loop.induct)
  case (1 initial_norm atol max_iter st)
  show ?case
  proof (cases "criteria st \<ge> atol \<and> nb_iter st < max_iter")
    case True
    then obtain p where p: "newton_step (EuclideanMetric d) initial_norm st = Inr p"
        and rec: "project_srv_loop (EuclideanMetric d) initial_norm atol max_iter
                    (measure_proj (EuclideanMetric d) p (nb_iter st + 1)) = Inr st'"
      using "1.prems"(1) by (subst (asm) project_srv_loop.simps) (auto split: sum.splits)
    have "srv_norm (EuclideanMetric d) (proj (measure_proj (EuclideanMetric d) p (nb_iter st + 1)))
        = initial_norm"
      using newton_step_norm[OF p "1.prems"(2)] by simp
    then show ?thesis using "1.hyps"[OF True p rec "1.prems"(2)] by blast
  next
    case False
    then have "st' = st" using "1.prems"(1) by (subst (asm) project_srv_loop.simps) auto
    then show ?thesis using "1.prems"(3) by simp
  qed
qed

text \<open>
  Claim C5. In exact arithmetic, the projection that one pass of the loop of \<open>project_srv\<close>
  assigns has the norm of the representation given to \<open>project_srv\<close>, and so has the
  projection that \<open>project_srv\<close> returns. A pass in which the renormalization divides by
  zero is a fault and assigns nothing.
\<close>

theorem project_srv_keeps_norm:
  "(is_planar m \<longrightarrow> newton_step m (srv_norm m srv) st = Inr p \<longrightarrow>
      srv_norm m p = srv_norm m srv) \<and>
   (project_srv m srv atol max_iter = Inr p' \<longrightarrow> srv_norm m p' = srv_norm m srv)"
proof (intro conjI impI)
  assume "is_planar m" and step: "newton_step m (srv_norm m srv) st = Inr p"
  then have m: "m = EuclideanMetric 2" by (simp add: planar_metric)
  show "srv_norm m p = srv_norm m srv"
    using newton_step_norm[OF step[unfolded m] srv_norm_nonneg] unfolding m .
next
  assume ret: "project_srv m srv atol max_iter = Inr p'"
  then have pl: "is_planar m"
    by (auto simp: project_srv_def project_srv_run_def split: if_splits)
  then have m: "m = EuclideanMetric 2" by (simp add: planar_metric)
  obtain st' where run: "project_srv_loop m (srv_norm m srv) atol max_iter (measure_proj m srv 0)
       = Inr st'" and p': "p' = proj st'"
    using ret pl by (auto simp: project_srv_def project_srv_run_def Let_def split: if_splits sum.splits)
  show "srv_norm m p' = srv_norm m srv"
    unfolding p' using loop_keeps_norm[OF run[unfolded m] srv_norm_nonneg] unfolding m by simp
qed


lemma segment_run:
  "project_srv_run (EuclideanMetric 2) [[1, 0], [1, 0]] (1 / 1000000) 1
     = Inr \<lparr>proj = [[1, 0], [1, 0]], proj_norms = [1, 1], residual = [2, 0], criteria = 2,
            nb_iter = 1\<rparr>"
proof -
  have n: "srv_norm (EuclideanMetric 2) [[1, 0], [1, 0]] = 1"
    by (simp add: srv_norm_def srv_inner_product_def l2_inner_product_def dot_def)
  show ?thesis
    unfolding project_srv_run_def Let_def n
    by (simp add: segment_state project_srv_loop.simps[of _ _ _ _ "\<lparr>proj = _, proj_norms = _,
          residual = _, criteria = _, nb_iter = _\<rparr>"] segment_step)
qed

theorem project_srv_keeps_norm_witness:
  "is_planar (EuclideanMetric 2) \<and>
   newton_step (EuclideanMetric 2) (srv_norm (EuclideanMetric 2) [[1, 0], [1, 0]])
     \<lparr>proj = [[1, 0], [1, 0]], proj_norms = [1, 1], residual = [2, 0], criteria = 2,
        nb_iter = 0\<rparr> = Inr [[1, 0], [1, 0]] \<and>
   project_srv (EuclideanMetric 2) [[1, 0], [1, 0]] (1 / 1000000) 1 = Inr [[1, 0], [1, 0]] \<and>
   srv_norm (EuclideanMetric 2) [[1, 0], [1, 0]] = srv_norm (EuclideanMetric 2) [[1, 0], [1, 0]]"
proof -
  have n: "srv_norm (EuclideanMetric 2) [[1, 0], [1, 0]] = 1"
    by (simp add: srv_norm_def srv_inner_product_def l2_inner_product_def dot_def)
  have r: "project_srv (EuclideanMetric 2) [[1, 0], [1, 0]] (1 / 1000000) 1 = Inr [[1, 0], [1, 0]]"
    by (simp add: project_srv_def segment_run)
  show ?thesis
    using project_srv_keeps_norm[of "EuclideanMetric 2" "[[1, 0], [1, 0]]"
        "\<lparr>proj = [[1, 0], [1, 0]], proj_norms = [1, 1], residual = [2, 0], criteria = 2,
          nb_iter = 0\<rparr>" "[[1, 0], [1, 0]]" "1 / 1000000" 1 "[[1, 0], [1, 0]]"]
      r segment_step[of 0] n
    by simp
qed





























section \<open>Properties of the split and of the reparametrization grid\<close>









text \<open>
  Three points on a line, and a tangent vector that moves the first of them along the
  line.
\<close>

lemma split_example:
  "split_horizontal_vertical (EuclideanMetric 2) [[1, 0], [0, 0], [0, 0]]
       [[0, 0], [1, 0], [2, 0]]
     = Inr ([[1, 0], [1 / 2, 0], [0, 0]], [[0, 0], [- 1 / 2, 0], [0, 0]], [0, - 1 / 2, 0])"
proof -
  have sys: "linalg_solve (tridiagonal [1] [- 2] [1]) [1] = Inr [- 1 / 2]"
    by (simp add: tridiagonal_def linalg_solve_def scal_def dot_def)
  show ?thesis
    unfolding split_horizontal_vertical_def Let_def
    by (simp add: pointwise_inner_product_def pointwise_norm_def mat_scal_def mat_sub_def
          mat_add_def scal_def vec_sub_def vec_add_def vec_sq_def vec_mul_def vec_div_def
          dot_def sys)
qed





lemma length_solve_rows: "solve_rows k rows = Some xs \<Longrightarrow> length xs = k"
proof (induction k arbitrary: rows xs)
  case 0
  then show ?case by simp
next
  case (Suc k)
  then show ?case
    by (auto simp: Let_def split: option.splits)
qed

lemma length_linalg_solve: "linalg_solve a b = Inr x \<Longrightarrow> length x = length a"
  by (auto simp: linalg_solve_def length_solve_rows split: option.splits)

lemma length_tridiagonal [simp]: "length (tridiagonal a b c) = length b"
  by (simp add: tridiagonal_def)

lemma length_mat_ops [simp]:
  "length (mat_sub a b) = min (length a) (length b)"
  "length (mat_add a b) = min (length a) (length b)"
  "length (mat_scal x a) = length a"
  by (simp_all add: mat_sub_def mat_add_def mat_scal_def)

lemma length_vec_ops [simp]:
  "length (vec_add u v) = min (length u) (length v)"
  "length (vec_mul u v) = min (length u) (length v)"
  "length (vec_div u v) = min (length u) (length v)"
  "length (vec_sq u) = length u"
  by (simp_all add: vec_add_def vec_mul_def vec_div_def vec_sq_def)

lemma length_pointwise [simp]:
  "length (pointwise_inner_product m a b c) = min (length a) (min (length b) (length c))"
  "length (pointwise_norm m a c) = min (length a) (length c)"
  by (simp_all add: pointwise_inner_product_def pointwise_norm_def)

lemma nth_pointwise_inner_product:
  assumes "i < length a" "i < length b" "i < length c"
  shows "pointwise_inner_product (EuclideanMetric k) a b c ! i = dot (a ! i) (b ! i)"
  using assms by (simp add: pointwise_inner_product_def)

lemma dot_vec_sub_left:
  assumes "length a = length b" "length b = length v"
  shows "dot (vec_sub a b) v = dot a v - dot b v"
  using assms unfolding dot_def vec_sub_def
  by (induction a b v rule: list_induct3) (simp_all add: algebra_simps)

lemma dot_scal_right: "dot a (scal c b) = c * dot a b"
  unfolding dot_def scal_def
  by (induction a arbitrary: b) (auto simp: algebra_simps split: list.splits simp: zip_Cons1)

lemma dot_scal_left: "dot (scal c a) b = c * dot a b"
  unfolding dot_def scal_def
  by (induction a arbitrary: b) (auto simp: algebra_simps split: list.splits simp: zip_Cons1)


lemma split_parts:
  assumes ret: "split_horizontal_vertical m tangent_vec curve = Inr (hor, ver, vertical_norm)"
  shows "\<exists>solution.
      length solution = length curve - 2 \<and>
      vertical_norm = 0 # solution @ [0] \<and>
      ver = replicate (case curve of [] \<Rightarrow> 0 | r # _ \<Rightarrow> length r) 0
            # map2 (\<lambda>u c. scal c u)
                (map2 (\<lambda>v nrm. scal (1 / nrm) v)
                   (mat_scal (1 / 2) (mat_sub (drop 2 curve) (butlast (butlast curve))))
                   (pointwise_norm m
                      (mat_scal (1 / 2) (mat_sub (drop 2 curve) (butlast (butlast curve))))
                      (butlast (tl curve))))
                solution
            @ [replicate (case curve of [] \<Rightarrow> 0 | r # _ \<Rightarrow> length r) 0] \<and>
      hor = mat_sub tangent_vec ver \<and>
      (\<forall>s \<in> set (pointwise_inner_product m
                     (mat_scal (1 / 2) (mat_sub (drop 2 curve) (butlast (butlast curve))))
                     (mat_scal (1 / 2) (mat_sub (drop 2 curve) (butlast (butlast curve))))
                     (butlast (tl curve))). 0 < s)"
proof -
  have nofault: "\<forall>s \<in> set (pointwise_inner_product m
                     (mat_scal (1 / 2) (mat_sub (drop 2 curve) (butlast (butlast curve))))
                     (mat_scal (1 / 2) (mat_sub (drop 2 curve) (butlast (butlast curve))))
                     (butlast (tl curve))). 0 < s"
    using ret unfolding split_horizontal_vertical_def Let_def
    by (simp split: if_splits) (meson not_le)
  obtain a b solution where sys: "linalg_solve a b = Inr solution"
      and la: "length a = length curve - 2"
      and rest: "vertical_norm = 0 # solution @ [0] \<and>
      ver = replicate (case curve of [] \<Rightarrow> 0 | r # _ \<Rightarrow> length r) 0
            # map2 (\<lambda>u c. scal c u)
                (map2 (\<lambda>v nrm. scal (1 / nrm) v)
                   (mat_scal (1 / 2) (mat_sub (drop 2 curve) (butlast (butlast curve))))
                   (pointwise_norm m
                      (mat_scal (1 / 2) (mat_sub (drop 2 curve) (butlast (butlast curve))))
                      (butlast (tl curve))))
                solution
            @ [replicate (case curve of [] \<Rightarrow> 0 | r # _ \<Rightarrow> length r) 0] \<and>
      hor = mat_sub tangent_vec ver"
    using ret unfolding split_horizontal_vertical_def Let_def
    by (auto split: if_splits sum.splits)
  have "length solution = length curve - 2"
    using length_linalg_solve[OF sys] la by simp
  then show ?thesis using rest nofault by blast
qed


lemma nth_d_pos:
  assumes "j + 2 < length curve"
  shows "mat_scal (1 / 2) (mat_sub (drop 2 curve) (butlast (butlast curve))) ! j
          = central_difference curve (j + 1)"
  using assms
  by (simp add: mat_scal_def mat_sub_def central_difference_def nth_butlast)

text \<open>
  Claim C2, as the code has it. In a Euclidean ambient space, at an interior sampling point
  the vertical part is the vertical norm times the unit speed vector and the horizontal
  part is the rest of the tangent vector, so their pointwise inner product is the vertical
  norm times the difference between the tangential component of the tangent vector and the
  vertical norm. It is zero exactly where the vertical norm is zero or equals that
  tangential component.
\<close>

theorem split_pointwise_inner_product:
  assumes ret: "split_horizontal_vertical (EuclideanMetric k) tangent_vec curve
                  = Inr (hor, ver, vertical_norm)"
      and len: "length tangent_vec = length curve"
      and wc: "\<forall>r \<in> set curve. length r = d"
      and wt: "\<forall>r \<in> set tangent_vec. length r = d"
      and i: "1 \<le> i" "i < length curve - 1"
  shows "ver ! i = scal (vertical_norm ! i) (unit_speed_at curve i) \<and>
         hor ! i = vec_sub (tangent_vec ! i) (ver ! i) \<and>
         pointwise_inner_product (EuclideanMetric k) hor ver curve ! i
           = vertical_norm ! i
             * (dot (tangent_vec ! i) (unit_speed_at curve i) - vertical_norm ! i) \<and>
         (pointwise_inner_product (EuclideanMetric k) hor ver curve ! i = 0 \<longleftrightarrow>
            vertical_norm ! i = 0 \<or>
            vertical_norm ! i = dot (tangent_vec ! i) (unit_speed_at curve i))"
proof -
  let ?E = "EuclideanMetric k"
  let ?n = "length curve"
  let ?d_pos = "mat_scal (1 / 2) (mat_sub (drop 2 curve) (butlast (butlast curve)))"
  let ?position = "butlast (tl curve)"
  let ?us = "map2 (\<lambda>v nrm. scal (1 / nrm) v) ?d_pos (pointwise_norm ?E ?d_pos ?position)"
  let ?w = "case curve of [] \<Rightarrow> 0 | r # _ \<Rightarrow> length r"
  let ?u = "unit_speed_at curve i"
  let ?c = "vertical_norm ! i"
  obtain solution where ls: "length solution = ?n - 2"
      and vn: "vertical_norm = 0 # solution @ [0]"
      and ver: "ver = replicate ?w 0 # map2 (\<lambda>u c. scal c u) ?us solution @ [replicate ?w 0]"
      and hor: "hor = mat_sub tangent_vec ver"
      and pos: "\<forall>s \<in> set (pointwise_inner_product ?E ?d_pos ?d_pos ?position). 0 < s"
    using split_parts[OF ret] by blast
  obtain j where j: "i = j + 1" using i(1) by (metis add.commute le_Suc_ex)
  have j2: "j + 2 < ?n" using i(2) j by simp
  have jl: "j < ?n - 2" using j2 by simp
  have ldp: "length ?d_pos = ?n - 2" by simp
  have lpos: "length ?position = ?n - 2" by simp
  have dj: "?d_pos ! j = central_difference curve i" using nth_d_pos[OF j2] j by simp
  have sq: "0 < dot (central_difference curve i) (central_difference curve i)"
  proof -
    have "pointwise_inner_product ?E ?d_pos ?d_pos ?position ! j
        \<in> set (pointwise_inner_product ?E ?d_pos ?d_pos ?position)"
      using jl by (intro nth_mem) simp
    then have "0 < pointwise_inner_product ?E ?d_pos ?d_pos ?position ! j" using pos by blast
    then show ?thesis
      using nth_pointwise_inner_product[of j ?d_pos ?d_pos ?position k] jl ldp lpos dj by simp
  qed
  have usj: "?us ! j = ?u"
  proof -
    have "pointwise_norm ?E ?d_pos ?position ! j
        = sqrt (dot (central_difference curve i) (central_difference curve i))"
      using jl dj by (simp add: pointwise_norm_def pointwise_inner_product_def)
    then show ?thesis using jl dj by (simp add: unit_speed_at_def)
  qed
  have lus: "length ?us = ?n - 2" by simp
  have cj: "?c = solution ! j" using vn j jl ls by (simp add: nth_append)
  have lm: "length (map2 (\<lambda>u c. scal c u) ?us solution) = ?n - 2"
    using ls lus by simp
  have "ver ! i = map2 (\<lambda>u c. scal c u) ?us solution ! j"
    unfolding ver j using jl lm by (simp add: nth_append del: length_map)
  also have "\<dots> = scal (solution ! j) (?us ! j)"
    using jl ls lus by (simp del: length_map)
  finally have veri: "ver ! i = scal ?c ?u"
    unfolding usj cj .
  have lver: "length ver = ?n" using ver ls lus i by simp
  have hori: "hor ! i = vec_sub (tangent_vec ! i) (ver ! i)"
    unfolding hor using i len lver by (simp add: mat_sub_def)
  have lt: "length (tangent_vec ! i) = d" using wt i len by simp
  have lu: "length ?u = d"
  proof -
    have "length (curve ! (i + 1)) = d" "length (curve ! (i - 1)) = d" using wc i by simp_all
    then show ?thesis by (simp add: unit_speed_at_def central_difference_def)
  qed
  have unit: "dot ?u ?u = 1"
  proof -
    let ?dd = "dot (central_difference curve i) (central_difference curve i)"
    have "dot ?u ?u = (1 / sqrt ?dd)\<^sup>2 * ?dd"
      unfolding unit_speed_at_def by (rule dot_scal)
    also have "\<dots> = 1" using sq by (simp add: power_divide)
    finally show ?thesis .
  qed
  have "pointwise_inner_product ?E hor ver curve ! i = dot (hor ! i) (ver ! i)"
    using i lver len hor by (intro nth_pointwise_inner_product) simp_all
  also have "\<dots> = dot (vec_sub (tangent_vec ! i) (scal ?c ?u)) (scal ?c ?u)"
    unfolding hori veri ..
  also have "\<dots> = dot (tangent_vec ! i) (scal ?c ?u) - dot (scal ?c ?u) (scal ?c ?u)"
    using lt lu by (intro dot_vec_sub_left) simp_all
  also have "\<dots> = ?c * dot (tangent_vec ! i) ?u - ?c\<^sup>2 * dot ?u ?u"
    by (simp add: dot_scal_right dot_scal_left power2_eq_square)
  also have "\<dots> = ?c * (dot (tangent_vec ! i) ?u - ?c)"
    unfolding unit by (simp add: power2_eq_square algebra_simps)
  finally have pip: "pointwise_inner_product ?E hor ver curve ! i
      = ?c * (dot (tangent_vec ! i) ?u - ?c)" .
  have "pointwise_inner_product ?E hor ver curve ! i = 0 \<longleftrightarrow>
      ?c = 0 \<or> ?c = dot (tangent_vec ! i) ?u"
    unfolding pip by auto
  then show ?thesis using veri hori pip by blast
qed

text \<open>
  Claim C2 as it is stated fails: for three points on a line and a tangent vector that
  moves the first of them along the line, the pointwise inner product of the two parts at
  the interior point is \<open>- 1 / 4\<close>.
\<close>

theorem split_not_pointwise_orthogonal:
  "split_horizontal_vertical (EuclideanMetric 2) [[1, 0], [0, 0], [0, 0]]
       [[0, 0], [1, 0], [2, 0]]
     = Inr ([[1, 0], [1 / 2, 0], [0, 0]], [[0, 0], [- 1 / 2, 0], [0, 0]], [0, - 1 / 2, 0]) \<and>
   pointwise_inner_product (EuclideanMetric 2) [[1, 0], [1 / 2, 0], [0, 0]]
       [[0, 0], [- 1 / 2, 0], [0, 0]] [[0, 0], [1, 0], [2, 0]] ! 1 = - 1 / 4"
  using split_example by (simp add: pointwise_inner_product_def dot_def)

theorem split_pointwise_inner_product_witness:
  "split_horizontal_vertical (EuclideanMetric 2) [[1, 0], [0, 0], [0, 0]]
       [[0, 0], [1, 0], [2, 0]]
     = Inr ([[1, 0], [1 / 2, 0], [0, 0]], [[0, 0], [- 1 / 2, 0], [0, 0]], [0, - 1 / 2, 0]) \<and>
   ([[0, 0], [- 1 / 2, 0], [0, 0]] ! 1
      = scal ([0, - 1 / 2, 0] ! 1) (unit_speed_at [[0, 0], [1, 0], [2, 0]] 1) \<and>
    [[1, 0], [1 / 2, 0], [0, 0]] ! 1
      = vec_sub ([[1, 0], [0, 0], [0, 0]] ! 1) ([[0, 0], [- 1 / 2, 0], [0, 0]] ! 1) \<and>
    pointwise_inner_product (EuclideanMetric 2) [[1, 0], [1 / 2, 0], [0, 0]]
        [[0, 0], [- 1 / 2, 0], [0, 0]] [[0, 0], [1, 0], [2, 0]] ! 1
      = [0, - 1 / 2, 0] ! 1
        * (dot ([[1, 0], [0, 0], [0, 0]] ! 1) (unit_speed_at [[0, 0], [1, 0], [2, 0]] 1)
           - [0, - 1 / 2, 0] ! 1) \<and>
    (pointwise_inner_product (EuclideanMetric 2) [[1, 0], [1 / 2, 0], [0, 0]]
         [[0, 0], [- 1 / 2, 0], [0, 0]] [[0, 0], [1, 0], [2, 0]] ! 1 = 0 \<longleftrightarrow>
       [0, - 1 / 2, 0 :: real] ! 1 = 0 \<or>
       [0, - 1 / 2, 0] ! 1
         = dot ([[1, 0], [0, 0], [0, 0]] ! 1) (unit_speed_at [[0, 0], [1, 0], [2, 0]] 1)))"
proof -
  have len: "length [[1, 0], [0, 0], [0, 0 :: real]] = length [[0, 0], [1, 0], [2, 0 :: real]]"
    by simp
  have wc: "\<forall>r \<in> set [[0, 0], [1, 0], [2, 0 :: real]]. length r = 2" by simp
  have wt: "\<forall>r \<in> set [[1, 0], [0, 0], [0, 0 :: real]]. length r = 2" by simp
  have i: "(1::nat) \<le> 1" "1 < length [[0, 0], [1, 0], [2, 0 :: real]] - 1" by simp_all
  show ?thesis
    by (rule conjI[OF split_example
          split_pointwise_inner_product[OF split_example len wc wt i]])
qed

section \<open>The model of the linear solver\<close>

text \<open>
  What the elimination returns solves the system, so that the model of \<open>linalg.solve\<close>
  returns the solution of a square system or raises.
\<close>

lemma solve_example:
  "linalg_solve [[2, 1], [1, 3]] [3, 5] = Inr [4 / 5, 7 / 5]"
  "linalg_solve [[0, 1], [1, 0]] [3, 5] = Inr [5, 3]"
  "linalg_solve [[1, 2], [2, 4]] [3, 5] = Inl LinAlgError"
  by (simp_all add: linalg_solve_def scal_def vec_sub_def dot_def numeral_2_eq_2)

lemma row_ends:
  assumes "length r = Suc (Suc k)"
  obtains a mid b where "r = a # mid @ [b]" "length mid = k"
proof -
  obtain a t where r: "r = a # t" using assms by (cases r) auto
  then have "t \<noteq> []" using assms by auto
  then obtain mid b where t: "t = mid @ [b]" by (cases t rule: rev_cases) auto
  have "length mid = k" using assms r t by simp
  then show ?thesis using that r t by blast
qed

lemma dot_Cons: "dot (a # u) (x # v) = a * x + dot u v"
  by (simp add: dot_def)

lemma solve_rows_sound:
  assumes "solve_rows k rows = Some xs" "length rows = k" "\<forall>r \<in> set rows. length r = Suc k"
  shows "\<forall>r \<in> set rows. dot (butlast r) xs = last r"
  using assms
proof (induction k arbitrary: rows xs)
  case 0
  then show ?case by simp
next
  case (Suc k)
  from Suc.prems(1) obtain p where f: "find (\<lambda>r. hd r \<noteq> 0) rows = Some p"
    by (auto split: option.splits)
  let ?pivot = "scal (1 / hd p) p"
  let ?reduced = "map (\<lambda>r. tl (vec_sub r (scal (hd r) ?pivot))) (remove1 p rows)"
  from Suc.prems(1) f obtain xs' where rec: "solve_rows k ?reduced = Some xs'"
      and xs: "xs = (last ?pivot - dot (butlast (tl ?pivot)) xs') # xs'"
    by (auto simp: Let_def split: option.splits)
  have pin: "p \<in> set rows" and hp: "hd p \<noteq> 0"
    using f by (auto simp: find_Some_iff)
  have lp: "length p = Suc (Suc k)" using Suc.prems(3) pin by simp
  obtain a pm pb where p: "p = a # pm @ [pb]" and lpm: "length pm = k"
    using row_ends[OF lp] by blast
  have a: "a \<noteq> 0" using hp p by simp
  have pivot: "?pivot = 1 # scal (1 / a) pm @ [pb / a]"
    using a by (simp add: p scal_def)
  have lx: "length xs' = k" using length_solve_rows[OF rec] .
  have lred: "length ?reduced = k" using Suc.prems(2) pin by (simp add: length_remove1)
  have wred: "\<forall>r \<in> set ?reduced. length r = Suc k"
  proof
    fix r' assume "r' \<in> set ?reduced"
    then obtain r where "r \<in> set rows" "r' = tl (vec_sub r (scal (hd r) ?pivot))"
      by (auto dest: notin_set_remove1)
    then show "length r' = Suc k" using Suc.prems(3) lp by simp
  qed
  have IH: "\<forall>r \<in> set ?reduced. dot (butlast r) xs' = last r"
    using Suc.IH[OF rec lred wred] .
  let ?x0 = "pb / a - dot (scal (1 / a) pm) xs'"
  have xs0: "xs = ?x0 # xs'" unfolding xs pivot by simp
  show ?case
  proof
    fix r assume r: "r \<in> set rows"
    show "dot (butlast r) xs = last r"
    proof (cases "r = p")
      case True
      have "dot (butlast p) xs = a * ?x0 + dot pm xs'"
        unfolding xs0 p by (simp add: dot_Cons)
      also have "\<dots> = pb" using a by (simp add: dot_scal_left algebra_simps)
      finally show ?thesis using True p by simp
    next
      case False
      then have rin: "r \<in> set (remove1 p rows)" using r by simp
      have lr: "length r = Suc (Suc k)" using Suc.prems(3) r by simp
      obtain c m b where rr: "r = c # m @ [b]" and lm: "length m = k"
        using row_ends[OF lr] by blast
      have red: "tl (vec_sub r (scal (hd r) ?pivot))
          = vec_sub m (scal c (scal (1 / a) pm)) @ [b - c * (pb / a)]"
        unfolding rr pivot using lm lpm by (simp add: vec_sub_def scal_def)
      have "tl (vec_sub r (scal (hd r) ?pivot)) \<in> set ?reduced" using rin by simp
      then have "dot (butlast (tl (vec_sub r (scal (hd r) ?pivot)))) xs'
          = last (tl (vec_sub r (scal (hd r) ?pivot)))"
        using IH by blast
      then have "dot (vec_sub m (scal c (scal (1 / a) pm))) xs' = b - c * (pb / a)"
        unfolding red by simp
      moreover have "dot (vec_sub m (scal c (scal (1 / a) pm))) xs'
          = dot m xs' - c * dot (scal (1 / a) pm) xs'"
        using lm lpm lx by (simp add: dot_vec_sub_left dot_scal_left)
      ultimately have e: "dot m xs' = b - c * (pb / a) + c * dot (scal (1 / a) pm) xs'" by simp
      have "dot (butlast r) xs = c * ?x0 + dot m xs'"
        unfolding xs0 rr by (simp add: dot_Cons)
      also have "\<dots> = b" unfolding e by (simp add: algebra_simps)
      finally show ?thesis using rr by simp
    qed
  qed
qed

lemma linalg_solve_sound:
  assumes sol: "linalg_solve a b = Inr x"
      and sq: "\<forall>r \<in> set a. length r = length a" and lb: "length b = length a"
  shows "matvec a x = b"
proof -
  let ?rows = "map2 (\<lambda>r y. r @ [y]) a b"
  have s: "solve_rows (length a) ?rows = Some x"
    using sol by (auto simp: linalg_solve_def split: option.splits)
  have l: "length ?rows = length a" using lb by simp
  have w: "\<forall>r \<in> set ?rows. length r = Suc (length a)"
    using sq by (auto dest!: set_zip_leftD)
  have all: "\<forall>r \<in> set ?rows. dot (butlast r) x = last r"
    using solve_rows_sound[OF s l w] .
  show ?thesis
  proof (rule nth_equalityI)
    show "length (matvec a x) = length b" using lb by (simp add: matvec_def)
  next
    fix i assume "i < length (matvec a x)"
    then have i: "i < length a" by (simp add: matvec_def)
    then have "?rows ! i \<in> set ?rows" using l by (metis nth_mem)
    moreover have "?rows ! i = a ! i @ [b ! i]" using i lb by simp
    ultimately have "dot (a ! i) x = b ! i" using all by (metis butlast_snoc last_snoc)
    then show "matvec a x ! i = b ! i" using i by (simp add: matvec_def)
  qed
qed

end
